theory Spec2Isabelle
  imports Main "HOL-Library.Word" "HOL-Library.Sublist"
begin

section \<open>Strings of the JavaScript runtime\<close>

text \<open>
  A JavaScript string is a sequence of 16-bit code units. \<open>ascii\<close> writes a string
  of Basic Latin characters as such a sequence, so that the literals of \<open>App.js\<close> can be
  read in the theory.
\<close>

type_synonym codeunit = "16 word"
type_synonym jsstring = "codeunit list"

definition ascii :: "string \<Rightarrow> jsstring" where
  "ascii s = map (\<lambda>c. word_of_nat (of_char c)) s"

text \<open>
  \<open>String.prototype.trim\<close> removes leading and trailing WhiteSpace and LineTerminator
  code points, and the regular expression class \<open>\s\<close> matches exactly the same code
  points (ECMAScript, TrimString and CharacterClassEscape \<open>s\<close>): TAB, LF, VT, FF, CR,
  SPACE, NO-BREAK SPACE, OGHAM SPACE MARK, EN QUAD to HAIR SPACE, LINE and PARAGRAPH
  SEPARATOR, NARROW NO-BREAK SPACE, MEDIUM MATHEMATICAL SPACE, IDEOGRAPHIC SPACE and
  ZERO WIDTH NO-BREAK SPACE. All of them are single code units.
\<close>

definition isWhiteSpace :: "codeunit \<Rightarrow> bool" where
  "isWhiteSpace c \<longleftrightarrow>
     (0x0009 \<le> c \<and> c \<le> 0x000D) \<or> c = 0x0020 \<or> c = 0x00A0 \<or> c = 0x1680 \<or>
     (0x2000 \<le> c \<and> c \<le> 0x200A) \<or> c = 0x2028 \<or> c = 0x2029 \<or> c = 0x202F \<or>
     c = 0x205F \<or> c = 0x3000 \<or> c = 0xFEFF"

definition trimStart :: "jsstring \<Rightarrow> jsstring" where
  "trimStart s = dropWhile isWhiteSpace s"

definition trimEnd :: "jsstring \<Rightarrow> jsstring" where
  "trimEnd s = rev (dropWhile isWhiteSpace (rev s))"

definition trim :: "jsstring \<Rightarrow> jsstring" where
  "trim s = trimEnd (trimStart s)"

text \<open>
  \<open>s.split(/\s+/)\<close>: every maximal run of white space is one separator; the pieces
  between the separators are returned, an empty piece before a leading separator and
  after a trailing one included. The empty string gives the one-element array \<open>[""]\<close>.
\<close>

function split_ws :: "jsstring \<Rightarrow> jsstring list" where
  "split_ws [] = [[]]"
| "split_ws (c # cs) =
     (if isWhiteSpace c then [] # split_ws (dropWhile isWhiteSpace cs)
      else (case split_ws cs of
              [] \<Rightarrow> [[c]]
            | w # ws \<Rightarrow> (c # w) # ws))"
  by pat_completeness auto
termination
  by (relation "measure length") (auto simp: length_dropWhile_le less_Suc_eq_le)

text \<open>\<open>s.charAt(0)\<close>: the first code unit as a string, the empty string if there is none.\<close>

definition charAt0 :: "jsstring \<Rightarrow> jsstring" where
  "charAt0 s = take 1 s"

section \<open>The host environment\<close>

text \<open>
  The case mappings of strings and the locale formatting of dates are tables of the
  browser, not of this repository. The program is modelled over an arbitrary host that
  supplies them. A \<open>Date\<close> is the clock reading in milliseconds since the epoch, and
  every \<open>Date.now()\<close> and \<open>new Date()\<close> of the source is an argument of the handler
  that evaluates it.
\<close>

record casing =
  toLowerCase :: "jsstring \<Rightarrow> jsstring"
  toUpperCase :: "jsstring \<Rightarrow> jsstring"

record intl =
  toLocaleDateString_enGB :: "int \<Rightarrow> jsstring"
  toLocaleTimeString_enUS :: "int \<Rightarrow> jsstring"

text \<open>
  \<open>Number.prototype.toString\<close> on an integer clock reading: the decimal digits, after a
  minus sign for a negative reading. (The readings of a \<open>Date\<close> are integers of
  magnitude at most 8.64e15, far below 1e21, from where on the runtime would switch to
  exponent notation.)
\<close>

function digits :: "nat \<Rightarrow> jsstring" where
  "digits n = (if n < 10 then [0x30 + word_of_nat n]
               else digits (n div 10) @ [0x30 + word_of_nat (n mod 10)])"
  by pat_completeness auto
termination
  by (relation "measure id") auto

definition toString :: "int \<Rightarrow> jsstring" where
  "toString i = (if i < 0 then 0x2D # digits (nat (- i)) else digits (nat i))"

section \<open>Constants and helper functions of App.js\<close>

definition GROUP_COLORS :: "jsstring list" where
  "GROUP_COLORS = [ascii ''#B38BFA'', ascii ''#FF79F2'', ascii ''#43E6FC'',
                   ascii ''#F19576'', ascii ''#0047FF'', ascii ''#6691FF'']"

text \<open>
  \<open>split\<close> never returns the empty array, so \<open>words[0]\<close> exists, and \<open>words[1]\<close>
  exists whenever the length is not 1 (\<open>split_ws_nonempty\<close> below).
\<close>

definition getInitials :: "casing \<Rightarrow> jsstring \<Rightarrow> jsstring" where
  "getInitials h name =
     (if name = [] then []
      else let words = split_ws (trim name) in
        if length words = 1 then toUpperCase h (charAt0 (words ! 0))
        else toUpperCase h (charAt0 (words ! 0) @ charAt0 (words ! 1)))"

definition formatDate :: "intl \<Rightarrow> int \<Rightarrow> jsstring" where
  "formatDate l dateObj = toLocaleDateString_enGB l dateObj"

definition formatTime :: "intl \<Rightarrow> int \<Rightarrow> jsstring" where
  "formatTime l dateObj = toLocaleTimeString_enUS l dateObj"

section \<open>The data model and the state of the App component\<close>

record group =
  group_id :: jsstring
  group_name :: jsstring
  group_color :: jsstring
  group_initials :: jsstring

text \<open>\<open>groupId\<close> is the selection at the time the note is added: a group id or \<open>null\<close>.\<close>

record "note" =
  note_id :: jsstring
  note_groupId :: "jsstring option"
  note_content :: jsstring
  note_date :: jsstring
  note_time :: jsstring

record app_state =
  groups :: "group list"
  "notes" :: "note list"
  selectedGroupId :: "jsstring option"
  isModalOpen :: bool
  groupName :: jsstring
  selectedColor :: jsstring
  noteText :: jsstring

text \<open>
  What a handler did: it returned at a guard, it raised the blocking \<open>alert\<close> and
  returned, or it ran to its end and appended the record it built.
\<close>

datatype 'a outcome = Ignored | Alerted jsstring | Appended 'a

definition DuplicateNameError :: "group outcome" where
  "DuplicateNameError = Alerted (ascii ''Group name already exists!'')"

section \<open>Handlers\<close>

text \<open>
  A handler reads the state of the render in which it was created and hands the new
  values to the setters; it is modelled as a function from that state to what it did
  and the state of the next render. Two calls of handlers are taken to be separated by a
  render, as they are when the user presses the buttons one after the other.
\<close>

definition handleCreateGroup :: "casing \<Rightarrow> int \<Rightarrow> app_state \<Rightarrow> group outcome \<times> app_state" where
  "handleCreateGroup h now s =
     (if trim (groupName s) = [] then (Ignored, s)
      else if list_ex (\<lambda>g. toLowerCase h (group_name g) = toLowerCase h (trim (groupName s)))
                (groups s)
      then (Alerted (ascii ''Group name already exists!''), s)
      else
        let newGroup = \<lparr> group_id = toString now,
                          group_name = trim (groupName s),
                          group_color = selectedColor s,
                          group_initials = getInitials h (groupName s) \<rparr>
        in (Appended newGroup,
            s\<lparr> groups := groups s @ [newGroup],
               isModalOpen := False,
               groupName := [],
               selectedColor := GROUP_COLORS ! 0 \<rparr>))"

definition handleAddNote :: "intl \<Rightarrow> int \<Rightarrow> int \<Rightarrow> app_state \<Rightarrow> note outcome \<times> app_state" where
  "handleAddNote l dateObj now s =
     (if trim (noteText s) = [] then (Ignored, s)
      else
        let newNote = \<lparr> note_id = toString now,
                         note_groupId = selectedGroupId s,
                         note_content = noteText s,
                         note_date = formatDate l dateObj,
                         note_time = formatTime l dateObj \<rparr>
        in (Appended newNote,
            s\<lparr> notes := notes s @ [newNote], noteText := [] \<rparr>))"

text \<open>The derived values of each render.\<close>

definition currentGroup :: "app_state \<Rightarrow> group option" where
  "currentGroup s = find (\<lambda>g. Some (group_id g) = selectedGroupId s) (groups s)"

definition currentNotes :: "app_state \<Rightarrow> note list" where
  "currentNotes s = filter (\<lambda>n. note_groupId n = selectedGroupId s) (notes s)"

text \<open>
  The operations of the entity store, as the presentation layer reaches them: the name
  is typed into the modal and a colour picked before \<open>Create\<close> is pressed; a group is
  selected and the text typed before the note is sent.
\<close>

definition createGroup :: "casing \<Rightarrow> int \<Rightarrow> jsstring \<Rightarrow> jsstring \<Rightarrow> app_state \<Rightarrow> group outcome \<times> app_state" where
  "createGroup h now name color s =
     handleCreateGroup h now (s\<lparr> groupName := name, selectedColor := color \<rparr>)"

definition addNote :: "intl \<Rightarrow> int \<Rightarrow> int \<Rightarrow> jsstring option \<Rightarrow> jsstring \<Rightarrow> app_state \<Rightarrow> note outcome \<times> app_state" where
  "addNote l dateObj now groupId content s =
     handleAddNote l dateObj now (s\<lparr> selectedGroupId := groupId, noteText := content \<rparr>)"

definition listGroups :: "app_state \<Rightarrow> group list" where
  "listGroups s = groups s"

definition listNotesFor :: "jsstring option \<Rightarrow> app_state \<Rightarrow> note list" where
  "listNotesFor groupId s = currentNotes (s\<lparr> selectedGroupId := groupId \<rparr>)"

section \<open>A sample host\<close>

text \<open>
  The examples are evaluated on this host. Its case mappings are the rows of the
  Unicode tables for Basic Latin and Latin-1 Supplement (code units below U+0100), the
  special casing of U+00DF (sharp s, upper case \<open>SS\<close>) included; code units from
  U+0100 on are left as they are, so it stands for a browser on Latin-1 strings and on
  code units that have no case mapping, such as the surrogates of U+1F600.
  Its date labels are those of a browser in the UTC zone at clock reading 0 (with a plain
  space before \<open>AM\<close>, as locale data before CLDR 42 has it).
\<close>

definition upper_unit :: "codeunit \<Rightarrow> jsstring" where
  "upper_unit c =
     (if 0x61 \<le> c \<and> c \<le> 0x7A then [c - 0x20]
      else if c = 0xB5 then [0x039C]
      else if c = 0xDF then [0x53, 0x53]
      else if 0xE0 \<le> c \<and> c \<le> 0xFE \<and> c \<noteq> 0xF7 then [c - 0x20]
      else if c = 0xFF then [0x0178]
      else [c])"

definition lower_unit :: "codeunit \<Rightarrow> jsstring" where
  "lower_unit c =
     (if 0x41 \<le> c \<and> c \<le> 0x5A then [c + 0x20]
      else if 0xC0 \<le> c \<and> c \<le> 0xDE \<and> c \<noteq> 0xD7 then [c + 0x20]
      else [c])"

definition latin1 :: casing where
  "latin1 = \<lparr> toLowerCase = (\<lambda>s. concat (map lower_unit s)),
              toUpperCase = (\<lambda>s. concat (map upper_unit s)) \<rparr>"

text \<open>The upper case of a Basic Latin code unit.\<close>

definition ascii_up :: "codeunit \<Rightarrow> codeunit" where
  "ascii_up c = (if 0x61 \<le> c \<and> c \<le> 0x7A then c - 0x20 else c)"

definition epoch_utc :: intl where
  "epoch_utc = \<lparr> toLocaleDateString_enGB = (\<lambda>t. ascii ''1 Jan 1970''),
                 toLocaleTimeString_enUS = (\<lambda>t. ascii ''12:00 AM'') \<rparr>"

section \<open>JSON\<close>

text \<open>
  The values \<open>JSON.stringify\<close> and \<open>JSON.parse\<close> work on. An object is the list
  of its properties in enumeration order. Numbers are left out: no record of this
  program holds one, and their values are floating point.
\<close>

datatype json =
    JNull
  | JBool bool
  | JString jsstring
  | JArray "json list"
  | JObject "(jsstring \<times> json) list"

text \<open>
  \<open>SyntaxError\<close> is the exception of \<open>JSON.parse\<close>. \<open>Unmodelled\<close> marks a text
  or value this embedding says nothing about: a text with a number literal, a value
  that is not a collection of the data model. \<open>OutOfFuel\<close> is the parser's recursion
  bound being reached; \<open>JSON_parse\<close> starts with enough fuel for its input.
\<close>

datatype failure = SyntaxError | Unmodelled | OutOfFuel

subsection \<open>JSON.stringify\<close>

definition hex_digit :: "codeunit \<Rightarrow> codeunit" where
  "hex_digit d = (if d < 10 then 0x30 + d else 0x57 + d)"

text \<open>\<open>\uXXXX\<close> with lower-case hexadecimal digits, most significant first.\<close>

definition unicode_escape :: "codeunit \<Rightarrow> jsstring" where
  "unicode_escape c =
     [0x5C, 0x75, hex_digit (c div 16 div 16 div 16), hex_digit (c div 16 div 16 mod 16),
      hex_digit (c div 16 mod 16), hex_digit (c mod 16)]"

definition is_high_surrogate :: "codeunit \<Rightarrow> bool" where
  "is_high_surrogate c \<longleftrightarrow> 0xD800 \<le> c \<and> c \<le> 0xDBFF"

definition is_low_surrogate :: "codeunit \<Rightarrow> bool" where
  "is_low_surrogate c \<longleftrightarrow> 0xDC00 \<le> c \<and> c \<le> 0xDFFF"

text \<open>
  QuoteJSONString on one code point that is a single code unit: the short escapes,
  \<open>\uXXXX\<close> for the other control characters and for a surrogate without its
  partner, the code unit itself otherwise.
\<close>

definition escape_unit :: "codeunit \<Rightarrow> jsstring" where
  "escape_unit c =
     (if c = 0x08 then [0x5C, 0x62]
      else if c = 0x09 then [0x5C, 0x74]
      else if c = 0x0A then [0x5C, 0x6E]
      else if c = 0x0C then [0x5C, 0x66]
      else if c = 0x0D then [0x5C, 0x72]
      else if c = 0x22 then [0x5C, 0x22]
      else if c = 0x5C then [0x5C, 0x5C]
      else if c < 0x20 \<or> is_high_surrogate c \<or> is_low_surrogate c then unicode_escape c
      else [c])"

text \<open>The string is read by code points: a surrogate pair is copied as it is.\<close>

fun quote_body :: "jsstring \<Rightarrow> jsstring" where
  "quote_body [] = []"
| "quote_body [c] = escape_unit c"
| "quote_body (c # d # ds) =
     (if is_high_surrogate c \<and> is_low_surrogate d then c # d # quote_body ds
      else escape_unit c @ quote_body (d # ds))"

definition QuoteJSONString :: "jsstring \<Rightarrow> jsstring" where
  "QuoteJSONString s = 0x22 # quote_body s @ [0x22]"

fun join_comma :: "jsstring list \<Rightarrow> jsstring" where
  "join_comma [] = []"
| "join_comma [x] = x"
| "join_comma (x # y # ys) = x @ 0x2C # join_comma (y # ys)"

text \<open>\<open>JSON.stringify(value)\<close> without indentation.\<close>

fun JSON_stringify :: "json \<Rightarrow> jsstring" where
  "JSON_stringify JNull = ascii ''null''"
| "JSON_stringify (JBool b) = (if b then ascii ''true'' else ascii ''false'')"
| "JSON_stringify (JString s) = QuoteJSONString s"
| "JSON_stringify (JArray vs) = 0x5B # join_comma (map JSON_stringify vs) @ [0x5D]"
| "JSON_stringify (JObject ps) =
     0x7B # join_comma (map (\<lambda>p. QuoteJSONString (fst p) @ 0x3A # JSON_stringify (snd p)) ps)
       @ [0x7D]"

subsection \<open>JSON.parse\<close>

definition is_json_ws :: "codeunit \<Rightarrow> bool" where
  "is_json_ws c \<longleftrightarrow> c = 0x20 \<or> c = 0x09 \<or> c = 0x0A \<or> c = 0x0D"

definition skip_ws :: "jsstring \<Rightarrow> jsstring" where
  "skip_ws s = dropWhile is_json_ws s"

definition hexval :: "codeunit \<Rightarrow> codeunit option" where
  "hexval c =
     (if 0x30 \<le> c \<and> c \<le> 0x39 then Some (c - 0x30)
      else if 0x61 \<le> c \<and> c \<le> 0x66 then Some (c - 0x57)
      else if 0x41 \<le> c \<and> c \<le> 0x46 then Some (c - 0x37)
      else None)"

definition unescape :: "codeunit \<Rightarrow> codeunit option" where
  "unescape e =
     (if e = 0x22 then Some 0x22
      else if e = 0x5C then Some 0x5C
      else if e = 0x2F then Some 0x2F
      else if e = 0x62 then Some 0x08
      else if e = 0x66 then Some 0x0C
      else if e = 0x6E then Some 0x0A
      else if e = 0x72 then Some 0x0D
      else if e = 0x74 then Some 0x09
      else None)"

definition cons_char :: "codeunit \<Rightarrow> failure + (jsstring \<times> jsstring) \<Rightarrow> failure + (jsstring \<times> jsstring)" where
  "cons_char c r = (case r of Inl e \<Rightarrow> Inl e | Inr (s, rest) \<Rightarrow> Inr (c # s, rest))"

text \<open>
  The characters of a string literal after its opening quote, up to the closing quote:
  the string value and the text after the literal.
\<close>

fun parse_chars :: "jsstring \<Rightarrow> failure + (jsstring \<times> jsstring)" where
  "parse_chars [] = Inl SyntaxError"
| "parse_chars (c # cs) =
     (if c = 0x22 then Inr ([], cs)
      else if c = 0x5C then
        (case cs of
           [] \<Rightarrow> Inl SyntaxError
         | e # es \<Rightarrow>
             if e = 0x75 then
               (case es of
                  h1 # h2 # h3 # h4 # r \<Rightarrow>
                    (case (hexval h1, hexval h2, hexval h3, hexval h4) of
                       (Some a, Some b, Some c', Some d) \<Rightarrow>
                         cons_char (((a * 16 + b) * 16 + c') * 16 + d) (parse_chars r)
                     | _ \<Rightarrow> Inl SyntaxError)
                | _ \<Rightarrow> Inl SyntaxError)
             else
               (case unescape e of
                  None \<Rightarrow> Inl SyntaxError
                | Some u \<Rightarrow> cons_char u (parse_chars es)))
      else if c < 0x20 then Inl SyntaxError
      else cons_char c (parse_chars cs))"

definition literal :: "jsstring \<Rightarrow> json \<Rightarrow> jsstring \<Rightarrow> failure + (json \<times> jsstring)" where
  "literal w v s =
     (if take (length w) s = w then Inr (v, drop (length w) s) else Inl SyntaxError)"

text \<open>
  The properties of a parsed object, built by defining them one after the other: a key
  defined again keeps its place and takes the new value; a new key that is an array
  index goes among the array indices, which are enumerated first in ascending order;
  any other new key goes last.
\<close>

definition is_digit :: "codeunit \<Rightarrow> bool" where
  "is_digit c \<longleftrightarrow> 0x30 \<le> c \<and> c \<le> 0x39"

definition index_value :: "jsstring \<Rightarrow> int" where
  "index_value k = foldl (\<lambda>a c. 10 * a + uint (c - 0x30)) 0 k"

definition is_array_index :: "jsstring \<Rightarrow> bool" where
  "is_array_index k \<longleftrightarrow>
     k \<noteq> [] \<and> list_all is_digit k \<and> (hd k = 0x30 \<longrightarrow> length k = 1) \<and>
     index_value k < 4294967295"

fun insert_index :: "jsstring \<Rightarrow> json \<Rightarrow> (jsstring \<times> json) list \<Rightarrow> (jsstring \<times> json) list" where
  "insert_index k v [] = [(k, v)]"
| "insert_index k v (p # ps) =
     (if is_array_index (fst p) \<and> index_value (fst p) < index_value k
      then p # insert_index k v ps
      else (k, v) # p # ps)"

fun replace_value :: "jsstring \<Rightarrow> json \<Rightarrow> (jsstring \<times> json) list \<Rightarrow> (jsstring \<times> json) list" where
  "replace_value k v [] = []"
| "replace_value k v (p # ps) =
     (if fst p = k then (k, v) # ps else p # replace_value k v ps)"

definition define_property :: "(jsstring \<times> json) list \<Rightarrow> jsstring \<times> json \<Rightarrow> (jsstring \<times> json) list" where
  "define_property ps p =
     (if list_ex (\<lambda>q. fst q = fst p) ps then replace_value (fst p) (snd p) ps
      else if is_array_index (fst p) then insert_index (fst p) (snd p) ps
      else ps @ [p])"

definition make_object :: "(jsstring \<times> json) list \<Rightarrow> (jsstring \<times> json) list" where
  "make_object ms = foldl define_property [] ms"

text \<open>
  The parser of the JSON grammar. \<open>parse_value\<close> reads one value at the head of the
  text, \<open>parse_elements\<close> the elements of a non-empty array up to its bracket,
  \<open>parse_members\<close> the members of a non-empty object up to its brace. Each returns what
  it read and the text after it.
\<close>

fun parse_value :: "nat \<Rightarrow> jsstring \<Rightarrow> failure + (json \<times> jsstring)"
  and parse_elements :: "nat \<Rightarrow> jsstring \<Rightarrow> failure + (json list \<times> jsstring)"
  and parse_members :: "nat \<Rightarrow> jsstring \<Rightarrow> failure + ((jsstring \<times> json) list \<times> jsstring)"
where
  "parse_value 0 s = Inl OutOfFuel"
| "parse_value (Suc n) [] = Inl SyntaxError"
| "parse_value (Suc n) (c # cs) =
     (if c = 0x22 then
        (case parse_chars cs of
           Inl e \<Rightarrow> Inl e
         | Inr (s, r) \<Rightarrow> Inr (JString s, r))
      else if c = 0x5B then
        (case skip_ws cs of
           [] \<Rightarrow> Inl SyntaxError
         | d # r \<Rightarrow>
             if d = 0x5D then Inr (JArray [], r)
             else (case parse_elements n (d # r) of
                     Inl e \<Rightarrow> Inl e
                   | Inr (vs, r') \<Rightarrow> Inr (JArray vs, r')))
      else if c = 0x7B then
        (case skip_ws cs of
           [] \<Rightarrow> Inl SyntaxError
         | d # r \<Rightarrow>
             if d = 0x7D then Inr (JObject [], r)
             else (case parse_members n (d # r) of
                     Inl e \<Rightarrow> Inl e
                   | Inr (ms, r') \<Rightarrow> Inr (JObject (make_object ms), r')))
      else if c = 0x6E then literal (ascii ''null'') JNull (c # cs)
      else if c = 0x74 then literal (ascii ''true'') (JBool True) (c # cs)
      else if c = 0x66 then literal (ascii ''false'') (JBool False) (c # cs)
      else if c = 0x2D \<or> is_digit c then Inl Unmodelled
      else Inl SyntaxError)"
| "parse_elements 0 s = Inl OutOfFuel"
| "parse_elements (Suc n) s =
     (case parse_value (Suc n) s of
        Inl e \<Rightarrow> Inl e
      | Inr (v, r) \<Rightarrow>
          (case skip_ws r of
             [] \<Rightarrow> Inl SyntaxError
           | d # r' \<Rightarrow>
               if d = 0x5D then Inr ([v], r')
               else if d = 0x2C then
                 (case parse_elements n (skip_ws r') of
                    Inl e \<Rightarrow> Inl e
                  | Inr (vs, r'') \<Rightarrow> Inr (v # vs, r''))
               else Inl SyntaxError))"
| "parse_members 0 s = Inl OutOfFuel"
| "parse_members (Suc n) [] = Inl SyntaxError"
| "parse_members (Suc n) (q # cs) =
     (if q \<noteq> 0x22 then Inl SyntaxError
      else
        (case parse_chars cs of
           Inl e \<Rightarrow> Inl e
         | Inr (k, r) \<Rightarrow>
             (case skip_ws r of
                [] \<Rightarrow> Inl SyntaxError
              | col # r1 \<Rightarrow>
                  if col \<noteq> 0x3A then Inl SyntaxError
                  else
                    (case parse_value (Suc n) (skip_ws r1) of
                       Inl e \<Rightarrow> Inl e
                     | Inr (v, r2) \<Rightarrow>
                         (case skip_ws r2 of
                            [] \<Rightarrow> Inl SyntaxError
                          | d # r3 \<Rightarrow>
                              if d = 0x7D then Inr ([(k, v)], r3)
                              else if d = 0x2C then
                                (case parse_members n (skip_ws r3) of
                                   Inl e \<Rightarrow> Inl e
                                 | Inr (ms, r4) \<Rightarrow> Inr ((k, v) # ms, r4))
                              else Inl SyntaxError)))))"

text \<open>\<open>JSON.parse(text)\<close>: one value, with white space around it and nothing else.\<close>

definition JSON_parse :: "jsstring \<Rightarrow> failure + json" where
  "JSON_parse s =
     (case parse_value (Suc (length s)) (skip_ws s) of
        Inl e \<Rightarrow> Inl e
      | Inr (v, r) \<Rightarrow> if skip_ws r = [] then Inr v else Inl SyntaxError)"

section \<open>Persistence\<close>

text \<open>
  \<open>localStorage\<close> maps string keys to string values; \<open>getItem\<close> of an absent key is
  \<open>null\<close>. Its quota is not modelled: \<open>setItem\<close> always stores.
\<close>

type_synonym storage = "jsstring \<rightharpoonup> jsstring"

definition getItem :: "storage \<Rightarrow> jsstring \<Rightarrow> jsstring option" where
  "getItem st key = st key"

text \<open>
  The truth value of what \<open>getItem\<close> returned, as the conditional operator takes it:
  \<open>null\<close> and the empty string are falsy, every other string is truthy.
\<close>

definition truthy :: "jsstring option \<Rightarrow> bool" where
  "truthy saved = (case saved of None \<Rightarrow> False | Some text \<Rightarrow> text \<noteq> [])"

text \<open>
  The lazy initialisers of \<open>useState\<close>, \<open>saved ? JSON.parse(saved) : []\<close> on the slot
  of the collection: the value the collection state starts with. They are written over
  the \<open>JSON.parse\<close> of the host and its empty array, so that they say what is loaded
  for every payload, whatever value \<open>JSON.parse\<close> returns for it; an exception of
  \<open>JSON.parse\<close> is not caught.
\<close>

definition lazy_initialiser :: "(jsstring \<Rightarrow> 'e + 'v) \<Rightarrow> 'v \<Rightarrow> jsstring option \<Rightarrow> 'e + 'v" where
  "lazy_initialiser parse emptyArray saved =
     (if truthy saved
      then (case saved of Some text \<Rightarrow> parse text | None \<Rightarrow> Inr emptyArray)
      else Inr emptyArray)"

definition initialGroups :: "(jsstring \<Rightarrow> 'e + 'v) \<Rightarrow> 'v \<Rightarrow> storage \<Rightarrow> 'e + 'v" where
  "initialGroups parse emptyArray st =
     lazy_initialiser parse emptyArray (getItem st (ascii ''pocketGroups''))"

definition initialNotes :: "(jsstring \<Rightarrow> 'e + 'v) \<Rightarrow> 'v \<Rightarrow> storage \<Rightarrow> 'e + 'v" where
  "initialNotes parse emptyArray st =
     lazy_initialiser parse emptyArray (getItem st (ascii ''pocketNotes''))"

text \<open>
  The records as JavaScript objects, with the properties in the order of the object
  literals in \<open>handleCreateGroup\<close> and \<open>handleAddNote\<close>.
\<close>

definition group_json :: "group \<Rightarrow> json" where
  "group_json g =
     JObject [(ascii ''id'', JString (group_id g)),
              (ascii ''name'', JString (group_name g)),
              (ascii ''color'', JString (group_color g)),
              (ascii ''initials'', JString (group_initials g))]"

definition nullable_json :: "jsstring option \<Rightarrow> json" where
  "nullable_json x = (case x of None \<Rightarrow> JNull | Some s \<Rightarrow> JString s)"

definition note_json :: "note \<Rightarrow> json" where
  "note_json n =
     JObject [(ascii ''id'', JString (note_id n)),
              (ascii ''groupId'', nullable_json (note_groupId n)),
              (ascii ''content'', JString (note_content n)),
              (ascii ''date'', JString (note_date n)),
              (ascii ''time'', JString (note_time n))]"

text \<open>
  A parsed value as a collection of the data model: an array of objects with exactly
  the properties of the record, in its order, holding strings (\<open>groupId\<close>: a string or
  \<open>null\<close>). Any other value is outside the typed state of this embedding.
\<close>

definition json_string :: "json \<Rightarrow> jsstring option" where
  "json_string v = (case v of JString s \<Rightarrow> Some s | _ \<Rightarrow> None)"

definition json_nullable :: "json \<Rightarrow> jsstring option option" where
  "json_nullable v = (case v of JNull \<Rightarrow> Some None | JString s \<Rightarrow> Some (Some s) | _ \<Rightarrow> None)"

definition json_group :: "json \<Rightarrow> group option" where
  "json_group v =
     (case v of
        JObject ps \<Rightarrow>
          if map fst ps = [ascii ''id'', ascii ''name'', ascii ''color'', ascii ''initials'']
          then (case (json_string (snd (ps ! 0)), json_string (snd (ps ! 1)),
                      json_string (snd (ps ! 2)), json_string (snd (ps ! 3))) of
                  (Some i, Some n, Some c, Some t) \<Rightarrow>
                    Some \<lparr> group_id = i, group_name = n, group_color = c, group_initials = t \<rparr>
                | _ \<Rightarrow> None)
          else None
      | _ \<Rightarrow> None)"

definition json_note :: "json \<Rightarrow> note option" where
  "json_note v =
     (case v of
        JObject ps \<Rightarrow>
          if map fst ps = [ascii ''id'', ascii ''groupId'', ascii ''content'', ascii ''date'',
                           ascii ''time'']
          then (case (json_string (snd (ps ! 0)), json_nullable (snd (ps ! 1)),
                      json_string (snd (ps ! 2)), json_string (snd (ps ! 3)),
                      json_string (snd (ps ! 4))) of
                  (Some i, Some g, Some c, Some d, Some t) \<Rightarrow>
                    Some \<lparr> note_id = i, note_groupId = g, note_content = c, note_date = d,
                           note_time = t \<rparr>
                | _ \<Rightarrow> None)
          else None
      | _ \<Rightarrow> None)"

definition json_collection :: "(json \<Rightarrow> 'a option) \<Rightarrow> json \<Rightarrow> failure + 'a list" where
  "json_collection f v =
     (case v of
        JArray vs \<Rightarrow> (case those (map f vs) of None \<Rightarrow> Inl Unmodelled | Some xs \<Rightarrow> Inr xs)
      | _ \<Rightarrow> Inl Unmodelled)"

text \<open>
  The initialisers on the parser of this theory, with the loaded value read as a
  collection of the data model (\<open>loadGroups_initialGroups\<close> and
  \<open>loadNotes_initialNotes\<close> below): an absent slot reads as \<open>null\<close> and the empty
  string is falsy as well; an exception of \<open>JSON.parse\<close> is not caught.
\<close>

definition loadGroups :: "storage \<Rightarrow> failure + group list" where
  "loadGroups st =
     (case st (ascii ''pocketGroups'') of
        None \<Rightarrow> Inr []
      | Some saved \<Rightarrow>
          if saved = [] then Inr []
          else (case JSON_parse saved of Inl e \<Rightarrow> Inl e | Inr v \<Rightarrow> json_collection json_group v))"

definition loadNotes :: "storage \<Rightarrow> failure + note list" where
  "loadNotes st =
     (case st (ascii ''pocketNotes'') of
        None \<Rightarrow> Inr []
      | Some saved \<Rightarrow>
          if saved = [] then Inr []
          else (case JSON_parse saved of Inl e \<Rightarrow> Inl e | Inr v \<Rightarrow> json_collection json_note v))"

text \<open>The two effects: \<open>localStorage.setItem(key, JSON.stringify(collection))\<close>.\<close>

definition saveGroups :: "group list \<Rightarrow> storage \<Rightarrow> storage" where
  "saveGroups gs st = st(ascii ''pocketGroups'' \<mapsto> JSON_stringify (JArray (map group_json gs)))"

definition saveNotes :: "note list \<Rightarrow> storage \<Rightarrow> storage" where
  "saveNotes ns st = st(ascii ''pocketNotes'' \<mapsto> JSON_stringify (JArray (map note_json ns)))"

text \<open>
  The first render: both collections are loaded, the other state takes its initial
  values, and both effects run once, the one on the groups first.
\<close>

definition mount :: "storage \<Rightarrow> failure + (app_state \<times> storage)" where
  "mount st =
     (case loadGroups st of
        Inl e \<Rightarrow> Inl e
      | Inr gs \<Rightarrow>
          (case loadNotes st of
             Inl e \<Rightarrow> Inl e
           | Inr ns \<Rightarrow>
               Inr (\<lparr> groups = gs, notes = ns, selectedGroupId = None, isModalOpen = False,
                       groupName = [], selectedColor = GROUP_COLORS ! 0, noteText = [] \<rparr>,
                    saveNotes ns (saveGroups gs st))))"

text \<open>
  After a handler, an effect runs when its collection was replaced. A handler replaces a
  collection only by the collection with one more record, so the comparison of the
  arrays by identity in React is the comparison of the lists here.
\<close>

definition effects :: "app_state \<Rightarrow> app_state \<Rightarrow> storage \<Rightarrow> storage" where
  "effects s s' st =
     (let st1 = (if groups s' \<noteq> groups s then saveGroups (groups s') st else st)
      in if notes s' \<noteq> notes s then saveNotes (notes s') st1 else st1)"

definition createGroup_rendered ::
  "casing \<Rightarrow> int \<Rightarrow> jsstring \<Rightarrow> jsstring \<Rightarrow> app_state \<times> storage \<Rightarrow> group outcome \<times> app_state \<times> storage" where
  "createGroup_rendered h now name color w =
     (let r = createGroup h now name color (fst w)
      in (fst r, snd r, effects (fst w) (snd r) (snd w)))"

definition addNote_rendered ::
  "intl \<Rightarrow> int \<Rightarrow> int \<Rightarrow> jsstring option \<Rightarrow> jsstring \<Rightarrow> app_state \<times> storage \<Rightarrow> note outcome \<times> app_state \<times> storage" where
  "addNote_rendered l dateObj now groupId content w =
     (let r = addNote l dateObj now groupId content (fst w)
      in (fst r, snd r, effects (fst w) (snd r) (snd w)))"

section \<open>The contracts of the specification, in its own words\<close>

text \<open>
  The initials as the data model describes them, on a trimmed non-empty name \<open>t\<close>:
  a name without white space is a single word and gives its first letter; otherwise
  the first letter of the name and the first letter after the white space that ends
  the first word are taken. The letters are upper-cased by the host.

  The first letter of a word is its first character, that is, the code point at its
  head: a character outside the Basic Multilingual Plane is a high surrogate followed
  by a low surrogate and is one letter of two code units; any other code unit at the
  head is a letter of its own.
\<close>

definition first_letter :: "jsstring \<Rightarrow> jsstring" where
  "first_letter w =
     (case w of
        [] \<Rightarrow> []
      | c # r \<Rightarrow>
          (case r of
             [] \<Rightarrow> [c]
           | d # _ \<Rightarrow> if is_high_surrogate c \<and> is_low_surrogate d then [c, d] else [c]))"

text \<open>The word begins with a character outside the Basic Multilingual Plane.\<close>

definition astral_initial :: "jsstring \<Rightarrow> bool" where
  "astral_initial w \<longleftrightarrow> length (first_letter w) = 2"

definition afterFirstWord :: "jsstring \<Rightarrow> jsstring" where
  "afterFirstWord t = dropWhile isWhiteSpace (dropWhile (\<lambda>c. \<not> isWhiteSpace c) t)"

definition initials_of :: "casing \<Rightarrow> jsstring \<Rightarrow> jsstring" where
  "initials_of h t =
     (if \<not> list_ex isWhiteSpace t then toUpperCase h (first_letter t)
      else toUpperCase h (first_letter t @ first_letter (afterFirstWord t)))"

text \<open>
  The one-time load of a slot as the specification words it: read the slot; if it is
  present, deserialise its payload into the collection; if it is absent, the collection
  is empty.
\<close>

definition spec_load :: "(jsstring \<Rightarrow> 'e + 'v) \<Rightarrow> 'v \<Rightarrow> storage \<Rightarrow> jsstring \<Rightarrow> 'e + 'v" where
  "spec_load parse emptyArray st key =
     (case st key of None \<Rightarrow> Inr emptyArray | Some payload \<Rightarrow> parse payload)"

text \<open>A state with empty collections, nothing selected and empty form fields.\<close>

definition empty_state :: app_state where
  "empty_state = \<lparr> groups = [], notes = [], selectedGroupId = None, isModalOpen = False,
                    groupName = [], selectedColor = GROUP_COLORS ! 0, noteText = [] \<rparr>"

section \<open>Trimming and splitting\<close>

declare digits.simps [simp del]

lemma last_dropWhile: "dropWhile P xs \<noteq> [] \<Longrightarrow> last (dropWhile P xs) = last xs"
  by (induction xs) (auto split: if_splits)

lemma trim_empty_iff: "trim s = [] \<longleftrightarrow> list_all isWhiteSpace s"
proof
  assume "trim s = []"
  then have "\<forall>x\<in>set (dropWhile isWhiteSpace s). isWhiteSpace x"
    unfolding trim_def trimEnd_def trimStart_def
    by (simp only: rev_is_Nil_conv dropWhile_eq_Nil_conv set_rev)
  then have "dropWhile isWhiteSpace s = []"
    by (metis hd_dropWhile list.set_sel(1))
  then show "list_all isWhiteSpace s"
    by (simp add: list_all_iff)
next
  assume "list_all isWhiteSpace s"
  then have "dropWhile isWhiteSpace s = []" by (simp add: list_all_iff)
  then show "trim s = []"
    by (simp add: trim_def trimEnd_def trimStart_def del: dropWhile_eq_Nil_conv)
qed

lemma trim_last: "trim s \<noteq> [] \<Longrightarrow> \<not> isWhiteSpace (last (trim s))"
  unfolding trim_def trimEnd_def
  by (simp add: last_rev hd_dropWhile)

lemma trim_hd: "trim s \<noteq> [] \<Longrightarrow> \<not> isWhiteSpace (hd (trim s))"
proof -
  assume ne: "trim s \<noteq> []"
  let ?d = "dropWhile isWhiteSpace s"
  from ne have d: "?d \<noteq> []"
    by (auto simp: trim_def trimEnd_def trimStart_def simp del: dropWhile_eq_Nil_conv)
  from ne have "dropWhile isWhiteSpace (rev ?d) \<noteq> []"
    by (simp add: trim_def trimEnd_def trimStart_def)
  then have "last (dropWhile isWhiteSpace (rev ?d)) = last (rev ?d)"
    by (rule last_dropWhile)
  also have "\<dots> = hd ?d" using d by (simp add: last_rev)
  finally have "hd (trim s) = hd ?d"
    using ne by (simp add: trim_def trimEnd_def trimStart_def hd_rev)
  with d show ?thesis by (simp add: hd_dropWhile)
qed

lemma split_ws_nonempty: "split_ws s \<noteq> []"
  by (induction s rule: split_ws.induct) (auto split: list.splits)

lemma split_ws_word:
  "\<forall>x\<in>set w. \<not> isWhiteSpace x \<Longrightarrow>
     split_ws (w @ r) = (w @ hd (split_ws r)) # tl (split_ws r)"
proof (induction w)
  case Nil
  then show ?case using split_ws_nonempty [of r] by simp
next
  case (Cons a w)
  then show ?case using split_ws_nonempty [of r] by (simp split: list.splits)
qed

lemma split_ws_single:
  assumes "\<not> list_ex isWhiteSpace t"
  shows "split_ws t = [t]"
proof -
  from assms have "\<forall>x\<in>set t. \<not> isWhiteSpace x" by (simp add: list_ex_iff)
  from split_ws_word [OF this, of "[]"] show ?thesis by simp
qed

lemma split_ws_two:
  assumes ex: "list_ex isWhiteSpace t" and last: "\<not> isWhiteSpace (last t)"
  shows "\<exists>c r' u us. afterFirstWord t = c # r' \<and> \<not> isWhiteSpace c \<and>
           split_ws t = takeWhile (\<lambda>c. \<not> isWhiteSpace c) t # (c # u) # us"
proof -
  let ?w = "takeWhile (\<lambda>c. \<not> isWhiteSpace c) t"
  let ?rest = "dropWhile (\<lambda>c. \<not> isWhiteSpace c) t"
  from ex have rest: "?rest \<noteq> []" by (auto simp: list_ex_iff)
  then obtain sp r1 where resteq: "?rest = sp # r1" by (cases ?rest) auto
  have sp: "isWhiteSpace sp" using hd_dropWhile [OF rest] resteq by simp
  have lastr: "last ?rest = last t" using rest by (rule last_dropWhile)
  let ?second = "dropWhile isWhiteSpace ?rest"
  have sne: "?second \<noteq> []"
  proof
    assume "?second = []"
    then have "\<forall>x\<in>set ?rest. isWhiteSpace x"
      unfolding dropWhile_eq_Nil_conv .
    moreover have "last ?rest \<in> set ?rest" using rest by (rule last_in_set)
    ultimately have "isWhiteSpace (last ?rest)" by blast
    with last lastr show False by metis
  qed
  then obtain c r' where seq: "?second = c # r'" by (cases ?second) auto
  have c: "\<not> isWhiteSpace c" using hd_dropWhile [OF sne] seq by simp
  have r1: "dropWhile isWhiteSpace r1 = c # r'" using seq resteq sp by simp
  have "split_ws ?rest = [] # split_ws (c # r')" using resteq sp r1 by simp
  moreover have "split_ws (c # r') = (c # hd (split_ws r')) # tl (split_ws r')"
    using c split_ws_nonempty [of r'] by (simp split: list.splits)
  moreover have "split_ws (?w @ ?rest) = (?w @ hd (split_ws ?rest)) # tl (split_ws ?rest)"
    by (rule split_ws_word) (auto dest: set_takeWhileD)
  ultimately have "split_ws t = ?w # (c # hd (split_ws r')) # tl (split_ws r')"
    by simp
  with seq c show ?thesis unfolding afterFirstWord_def by blast
qed

lemma getInitials_words:
  assumes "trim name \<noteq> []"
  shows "getInitials h name =
     (if \<not> list_ex isWhiteSpace (trim name) then toUpperCase h (take 1 (trim name))
      else toUpperCase h (take 1 (trim name) @ take 1 (afterFirstWord (trim name))))"
proof -
  let ?t = "trim name"
  from assms have name: "name \<noteq> []"
    by (auto simp: trim_def trimEnd_def trimStart_def)
  from assms obtain c cs where t: "?t = c # cs" by (cases ?t) auto
  have hdt: "\<not> isWhiteSpace c" using trim_hd [OF assms] t by simp
  show ?thesis
  proof (cases "list_ex isWhiteSpace ?t")
    case False
    then have "split_ws ?t = [?t]" by (rule split_ws_single)
    with False name t show ?thesis
      by (simp add: getInitials_def charAt0_def)
  next
    case True
    from split_ws_two [OF True trim_last [OF assms]]
    obtain c2 r' u us where a: "afterFirstWord ?t = c2 # r'"
      and s: "split_ws ?t = takeWhile (\<lambda>c. \<not> isWhiteSpace c) ?t # (c2 # u) # us"
      by blast
    have "takeWhile (\<lambda>c. \<not> isWhiteSpace c) ?t = c # takeWhile (\<lambda>c. \<not> isWhiteSpace c) cs"
      using t hdt by simp
    with True name a s t show ?thesis
      by (simp add: getInitials_def charAt0_def Let_def)
  qed
qed

lemma first_letter_plain: "\<not> astral_initial w \<Longrightarrow> first_letter w = take 1 w"
  by (auto simp: astral_initial_def first_letter_def split: list.splits)

lemma getInitials_initials_of:
  assumes "trim name \<noteq> []"
    and "\<not> astral_initial (trim name)"
    and "\<not> astral_initial (afterFirstWord (trim name))"
  shows "getInitials h name = initials_of h (trim name)"
  by (simp add: getInitials_words [OF assms(1)] initials_of_def
        first_letter_plain [OF assms(2)] first_letter_plain [OF assms(3)])

section \<open>Evaluation of the examples\<close>

lemmas string_eval = ascii_def trim_def trimStart_def trimEnd_def isWhiteSpace_def charAt0_def

lemmas latin1_eval = latin1_def upper_unit_def lower_unit_def

lemmas handler_eval = createGroup_def handleCreateGroup_def addNote_def handleAddNote_def
  empty_state_def GROUP_COLORS_def DuplicateNameError_def getInitials_def toString_def
  digits.simps formatDate_def formatTime_def epoch_utc_def Let_def

section \<open>Creating groups\<close>

lemma createGroup_rejects:
  assumes "trim name \<noteq> []"
    and "list_ex (\<lambda>g. toLowerCase h (group_name g) = toLowerCase h (trim name)) (groups s)"
  shows "fst (createGroup h now name color s) = DuplicateNameError \<and>
         groups (snd (createGroup h now name color s)) = groups s \<and>
         notes (snd (createGroup h now name color s)) = notes s"
  using assms by (simp add: createGroup_def handleCreateGroup_def DuplicateNameError_def)

lemma createGroup_has_name:
  assumes "trim name \<noteq> []"
  shows "list_ex (\<lambda>g. toLowerCase h (group_name g) = toLowerCase h (trim name))
           (groups (snd (createGroup h now name color s)))"
  using assms by (simp add: createGroup_def handleCreateGroup_def Let_def)

text \<open>On names of Basic Latin characters the sample host upper-cases letter by letter.\<close>

lemma ascii_upper_unit:
  fixes c :: codeunit
  assumes "c < 0x80"
  shows "upper_unit c = [if 0x61 \<le> c \<and> c \<le> 0x7A then c - 0x20 else c]"
  using assms by (auto simp: upper_unit_def word_le_nat_alt word_less_nat_alt)

lemma ascii_small_letter:
  fixes c :: codeunit
  assumes "0x61 \<le> c" "c \<le> 0x7A"
  shows "unat (c - 0x20) = unat c - 32" "97 \<le> unat c" "unat c \<le> 122"
proof -
  from assms show "97 \<le> unat c" "unat c \<le> 122"
    by (simp_all add: word_le_nat_alt)
  then have "(0x20 :: codeunit) \<le> c" by (simp add: word_le_nat_alt)
  then show "unat (c - 0x20) = unat c - 32" by (simp add: unat_sub)
qed

lemma ascii_upper_white:
  fixes c :: codeunit
  assumes "0x61 \<le> c" "c \<le> 0x7A"
  shows "\<not> isWhiteSpace (c - 0x20)" "\<not> isWhiteSpace c"
  using ascii_small_letter [OF assms]
  by (auto simp: isWhiteSpace_def word_le_nat_alt word_unat_eq_iff)

lemma ascii_upper_lower:
  fixes c :: codeunit
  assumes "0x61 \<le> c" "c \<le> 0x7A"
  shows "lower_unit (c - 0x20) = [c]" "lower_unit c = [c]"
  using ascii_small_letter [OF assms]
  by (auto simp: lower_unit_def word_le_nat_alt word_unat_eq_iff)

lemma ascii_toUpperCase:
  assumes "\<forall>c\<in>set s. c < 0x80"
  shows "toUpperCase latin1 s = map ascii_up s"
  using assms by (induction s) (simp_all add: latin1_def ascii_upper_unit ascii_up_def)

lemma ascii_up_white: "isWhiteSpace (ascii_up c) = isWhiteSpace c"
  using ascii_upper_white [of c] by (auto simp: ascii_up_def)

lemma ascii_up_lower: "lower_unit (ascii_up c) = lower_unit c"
  using ascii_upper_lower [of c] by (auto simp: ascii_up_def)

lemma trim_map_ascii_up: "trim (map ascii_up s) = map ascii_up (trim s)"
proof -
  have d: "dropWhile isWhiteSpace (map ascii_up xs) = map ascii_up (dropWhile isWhiteSpace xs)"
    for xs
    by (induction xs) (simp_all add: ascii_up_white)
  have "trim (map ascii_up s)
          = rev (dropWhile isWhiteSpace (map ascii_up (rev (dropWhile isWhiteSpace s))))"
    by (simp only: trim_def trimStart_def trimEnd_def d rev_map)
  also have "\<dots> = map ascii_up (trim s)"
    by (simp only: trim_def trimStart_def trimEnd_def d rev_map)
  finally show ?thesis .
qed

lemma toLowerCase_map_ascii_up:
  "toLowerCase latin1 (map ascii_up s) = toLowerCase latin1 s"
  by (induction s) (simp_all add: latin1_def ascii_up_lower)

lemma ascii_upper_round_trip:
  assumes "\<forall>c\<in>set name. c < 0x80"
  shows "toLowerCase latin1 (trim (toUpperCase latin1 name)) = toLowerCase latin1 (trim name)"
    and "trim name \<noteq> [] \<Longrightarrow> trim (toUpperCase latin1 name) \<noteq> []"
  by (simp_all add: ascii_toUpperCase [OF assms] trim_map_ascii_up toLowerCase_map_ascii_up)

text \<open>
  C1, as amended. A candidate name with a non-empty trimmed form whose lower-cased
  trimmed form equals the lower-cased name of an existing group is rejected with
  \<open>DuplicateNameError\<close>, and both collections stay as they are. After
  \<open>createGroup(name, c)\<close> on a valid name, \<open>createGroup\<close> on the upper-cased name is
  rejected in the same way whenever the upper-cased name, trimmed and lower-cased, is
  the lower-cased trimmed name again; on the sample host this is so for every name of
  Basic Latin characters.
\<close>

theorem createGroup_duplicate_name:
  "(trim name \<noteq> [] \<longrightarrow>
      list_ex (\<lambda>g. toLowerCase h (group_name g) = toLowerCase h (trim name)) (groups s) \<longrightarrow>
      fst (createGroup h now name color s) = DuplicateNameError \<and>
      groups (snd (createGroup h now name color s)) = groups s \<and>
      notes (snd (createGroup h now name color s)) = notes s) \<and>
   (trim name \<noteq> [] \<longrightarrow> trim (toUpperCase h name) \<noteq> [] \<longrightarrow>
      toLowerCase h (trim (toUpperCase h name)) = toLowerCase h (trim name) \<longrightarrow>
      fst (createGroup h now2 (toUpperCase h name) color2
             (snd (createGroup h now name color s))) = DuplicateNameError \<and>
      groups (snd (createGroup h now2 (toUpperCase h name) color2
                     (snd (createGroup h now name color s))))
        = groups (snd (createGroup h now name color s))) \<and>
   ((\<forall>c\<in>set name. c < 0x80) \<longrightarrow> trim name \<noteq> [] \<longrightarrow>
      fst (createGroup latin1 now2 (toUpperCase latin1 name) color2
             (snd (createGroup latin1 now name color s))) = DuplicateNameError \<and>
      groups (snd (createGroup latin1 now2 (toUpperCase latin1 name) color2
                     (snd (createGroup latin1 now name color s))))
        = groups (snd (createGroup latin1 now name color s)))"
proof (intro conjI; intro impI)
  assume "trim name \<noteq> []"
    and "list_ex (\<lambda>g. toLowerCase h (group_name g) = toLowerCase h (trim name)) (groups s)"
  then show "fst (createGroup h now name color s) = DuplicateNameError \<and>
      groups (snd (createGroup h now name color s)) = groups s \<and>
      notes (snd (createGroup h now name color s)) = notes s"
    by (rule createGroup_rejects)
next
  let ?s1 = "snd (createGroup h now name color s)"
  assume name: "trim name \<noteq> []" and up: "trim (toUpperCase h name) \<noteq> []"
    and same: "toLowerCase h (trim (toUpperCase h name)) = toLowerCase h (trim name)"
  from createGroup_has_name [OF name, of h now color s] same
  have "list_ex (\<lambda>g. toLowerCase h (group_name g) = toLowerCase h (trim (toUpperCase h name)))
          (groups ?s1)"
    by simp
  from createGroup_rejects [OF up this]
  show "fst (createGroup h now2 (toUpperCase h name) color2 ?s1) = DuplicateNameError \<and>
        groups (snd (createGroup h now2 (toUpperCase h name) color2 ?s1)) = groups ?s1"
    by simp
next
  let ?s1 = "snd (createGroup latin1 now name color s)"
  assume basic: "\<forall>c\<in>set name. c < 0x80" and name: "trim name \<noteq> []"
  from ascii_upper_round_trip [OF basic] name
  have up: "trim (toUpperCase latin1 name) \<noteq> []"
    and same: "toLowerCase latin1 (trim (toUpperCase latin1 name))
                 = toLowerCase latin1 (trim name)"
    by simp_all
  from createGroup_has_name [OF name, of latin1 now color s] same
  have "list_ex (\<lambda>g. toLowerCase latin1 (group_name g)
                  = toLowerCase latin1 (trim (toUpperCase latin1 name))) (groups ?s1)"
    by simp
  from createGroup_rejects [OF up this]
  show "fst (createGroup latin1 now2 (toUpperCase latin1 name) color2 ?s1) = DuplicateNameError \<and>
        groups (snd (createGroup latin1 now2 (toUpperCase latin1 name) color2 ?s1)) = groups ?s1"
    by simp
qed

text \<open>
  The scenario of the specification: after group \<open>Family\<close> is created, \<open>family\<close> is
  rejected and one group remains; so is the upper-cased \<open>FAMILY\<close>.
\<close>

theorem createGroup_duplicate_name_witness:
  "fst (createGroup latin1 2 (ascii ''family'') (GROUP_COLORS ! 1)
          (snd (createGroup latin1 1 (ascii ''Family'') (GROUP_COLORS ! 0) empty_state)))
     = DuplicateNameError \<and>
   fst (createGroup latin1 2 (toUpperCase latin1 (ascii ''Family'')) (GROUP_COLORS ! 1)
          (snd (createGroup latin1 1 (ascii ''Family'') (GROUP_COLORS ! 0) empty_state)))
     = DuplicateNameError \<and>
   length (groups (snd (createGroup latin1 2 (toUpperCase latin1 (ascii ''Family''))
          (GROUP_COLORS ! 1)
          (snd (createGroup latin1 1 (ascii ''Family'') (GROUP_COLORS ! 0) empty_state))))) = 1"
proof -
  let ?s1 = "snd (createGroup latin1 1 (ascii ''Family'') (GROUP_COLORS ! 0) empty_state)"
  have g: "map group_name (groups ?s1) = [ascii ''Family'']"
    by (simp add: handler_eval string_eval latin1_eval)
  have a: "trim (ascii ''family'') \<noteq> []" "trim (ascii ''Family'') \<noteq> []"
    "trim (toUpperCase latin1 (ascii ''Family'')) \<noteq> []"
    by (simp_all add: string_eval latin1_eval)
  have b: "toLowerCase latin1 (trim (toUpperCase latin1 (ascii ''Family'')))
             = toLowerCase latin1 (trim (ascii ''Family''))"
    by (simp add: string_eval latin1_eval)
  have "list_ex (\<lambda>n. toLowerCase latin1 n = toLowerCase latin1 (trim (ascii ''family'')))
          (map group_name (groups ?s1))"
    unfolding g by (simp add: string_eval latin1_eval)
  then have c: "list_ex (\<lambda>g. toLowerCase latin1 (group_name g)
                   = toLowerCase latin1 (trim (ascii ''family''))) (groups ?s1)"
    by (simp add: list_ex_iff)
  have len: "length (groups ?s1) = length (map group_name (groups ?s1))" by simp
  from createGroup_duplicate_name
         [of "ascii ''family''" latin1 ?s1 2 "GROUP_COLORS ! 1" 2 "GROUP_COLORS ! 1"]
       createGroup_duplicate_name
         [of "ascii ''Family''" latin1 empty_state 1 "GROUP_COLORS ! 0" 2 "GROUP_COLORS ! 1"]
       a b c len g
  show ?thesis by simp
qed

text \<open>
  C1 as stated fails on two inputs. The upper case of U+00DF (sharp s) is \<open>SS\<close>, whose
  lower case \<open>ss\<close> is not the lower case of the stored name: the second call appends a
  second group. And a trimmed-empty candidate is ignored without any error, also when a
  stored group has the empty name.
\<close>

theorem createGroup_upper_sharp_s_accepted:
  "fst (createGroup latin1 1 (toUpperCase latin1 [0xDF]) (GROUP_COLORS ! 1)
          (snd (createGroup latin1 0 [0xDF] (GROUP_COLORS ! 0) empty_state)))
     \<noteq> DuplicateNameError \<and>
   map group_name (groups (snd (createGroup latin1 1 (toUpperCase latin1 [0xDF])
          (GROUP_COLORS ! 1)
          (snd (createGroup latin1 0 [0xDF] (GROUP_COLORS ! 0) empty_state)))))
     = [[0xDF], ascii ''SS''] \<and>
   fst (createGroup latin1 1 (ascii '' '') (GROUP_COLORS ! 1)
          (empty_state\<lparr> groups := [\<lparr> group_id = ascii ''0'', group_name = [],
                                       group_color = GROUP_COLORS ! 0,
                                       group_initials = [] \<rparr>] \<rparr>))
     = Ignored"
  by (simp add: handler_eval string_eval latin1_eval)

section \<open>Initials\<close>

lemma initials_Mom_Dad: "getInitials latin1 (ascii ''Mom Dad'') = ascii ''MD''"
  by (simp add: getInitials_def string_eval latin1_eval)

lemma initials_Work: "getInitials latin1 (ascii ''Work'') = ascii ''W''"
  by (simp add: getInitials_def string_eval latin1_eval)

text \<open>
  C4, as amended. For a name with a non-empty trimmed form whose first word, and second
  word if there is one, do not begin with a character outside the Basic Multilingual
  Plane, \<open>getInitials\<close> is the upper-cased first letter of the trimmed name when that
  is a single word, and the upper-cased first letters of its first two words otherwise;
  these are the initials of the group that \<open>createGroup\<close> appends. \<open>Mom Dad\<close> gives
  \<open>MD\<close> and \<open>Work\<close> gives \<open>W\<close>.
\<close>

theorem getInitials_first_letters:
  "(trim name \<noteq> [] \<longrightarrow> \<not> astral_initial (trim name) \<longrightarrow>
      \<not> astral_initial (afterFirstWord (trim name)) \<longrightarrow>
      getInitials h name = initials_of h (trim name)) \<and>
   (trim name \<noteq> [] \<longrightarrow> \<not> astral_initial (trim name) \<longrightarrow>
      \<not> astral_initial (afterFirstWord (trim name)) \<longrightarrow>
      fst (createGroup h now name color s) \<noteq> DuplicateNameError \<longrightarrow>
      (\<exists>g. fst (createGroup h now name color s) = Appended g \<and>
           group_initials g = initials_of h (trim name))) \<and>
   getInitials latin1 (ascii ''Mom Dad'') = ascii ''MD'' \<and>
   getInitials latin1 (ascii ''Work'') = ascii ''W''"
  using initials_Mom_Dad initials_Work
  by (auto simp: getInitials_initials_of createGroup_def handleCreateGroup_def Let_def
        DuplicateNameError_def)

theorem getInitials_first_letters_witness:
  "trim (ascii '' Mom  Dad and me '') \<noteq> [] \<and>
   \<not> astral_initial (trim (ascii '' Mom  Dad and me '')) \<and>
   \<not> astral_initial (afterFirstWord (trim (ascii '' Mom  Dad and me ''))) \<and>
   getInitials latin1 (ascii '' Mom  Dad and me '') = ascii ''MD'' \<and>
   initials_of latin1 (trim (ascii '' Mom  Dad and me '')) = ascii ''MD'' \<and>
   (\<exists>g. fst (createGroup latin1 7 (ascii '' Mom  Dad and me '') (GROUP_COLORS ! 2) empty_state)
           = Appended g \<and> group_initials g = ascii ''MD'')"
proof -
  have a: "trim (ascii '' Mom  Dad and me '') = ascii ''Mom  Dad and me''"
    by (simp add: string_eval)
  have b: "initials_of latin1 (ascii ''Mom  Dad and me'') = ascii ''MD''"
    by (simp add: initials_of_def first_letter_def afterFirstWord_def is_high_surrogate_def
          string_eval latin1_eval)
  have c: "ascii ''Mom  Dad and me'' \<noteq> []" by (simp add: ascii_def)
  have d: "fst (createGroup latin1 7 (ascii '' Mom  Dad and me '') (GROUP_COLORS ! 2) empty_state)
             \<noteq> DuplicateNameError"
    by (simp add: createGroup_def handleCreateGroup_def empty_state_def a c Let_def
          DuplicateNameError_def)
  have e: "\<not> astral_initial (ascii ''Mom  Dad and me'')"
    "\<not> astral_initial (afterFirstWord (ascii ''Mom  Dad and me''))"
    by (simp_all add: astral_initial_def first_letter_def afterFirstWord_def
          is_high_surrogate_def string_eval)
  from getInitials_first_letters
         [of "ascii '' Mom  Dad and me ''" latin1 7 "GROUP_COLORS ! 2" empty_state] a b c d e
  show ?thesis by simp
qed

text \<open>
  C4 as stated fails on a name whose first letter is outside the Basic Multilingual
  Plane. \<open>charAt(0)\<close> is the first UTF-16 code unit: for the name made of U+1F600
  (the code units D83D DE00), a space and \<open>p\<close>, the code gives the unpaired surrogate
  D83D followed by \<open>P\<close>, while the upper-cased first letters are U+1F600 followed by
  \<open>P\<close>. (Neither U+1F600 nor a surrogate has a case mapping, so the sample host
  upper-cases these strings as a browser does.)
\<close>

theorem getInitials_astral_first_letter:
  "trim [0xD83D, 0xDE00, 0x20, 0x70] = [0xD83D, 0xDE00, 0x20, 0x70] \<and>
   getInitials latin1 [0xD83D, 0xDE00, 0x20, 0x70] = [0xD83D, 0x50] \<and>
   initials_of latin1 (trim [0xD83D, 0xDE00, 0x20, 0x70]) = [0xD83D, 0xDE00, 0x50] \<and>
   getInitials latin1 [0xD83D, 0xDE00] = [0xD83D] \<and>
   initials_of latin1 (trim [0xD83D, 0xDE00]) = [0xD83D, 0xDE00]"
  by (simp add: getInitials_def initials_of_def first_letter_def afterFirstWord_def
        is_high_surrogate_def is_low_surrogate_def string_eval latin1_eval)

text \<open>
  C3. For a name whose trimmed form is non-empty and not a case-insensitive duplicate,
  \<open>createGroup\<close> returns the group made of the allocated id, the trimmed name, the
  chosen colour and the computed initials; \<open>listGroups\<close> afterwards is the earlier
  list with that group appended, holds it exactly once, and has it at the end. The
  notes are untouched.
\<close>

theorem createGroup_appends:
  assumes "trim name \<noteq> []"
    and "\<not> list_ex (\<lambda>g. toLowerCase h (group_name g) = toLowerCase h (trim name)) (groups s)"
  shows "let g = \<lparr> group_id = toString now, group_name = trim name, group_color = color,
                   group_initials = getInitials h name \<rparr>;
             s' = snd (createGroup h now name color s)
         in fst (createGroup h now name color s) = Appended g \<and>
            listGroups s' = listGroups s @ [g] \<and>
            count_list (listGroups s') g = 1 \<and>
            last (listGroups s') = g \<and>
            notes s' = notes s"
proof -
  let ?g = "\<lparr> group_id = toString now, group_name = trim name, group_color = color,
               group_initials = getInitials h name \<rparr>"
  have "?g \<notin> set (groups s)"
  proof
    assume "?g \<in> set (groups s)"
    then have "\<exists>g\<in>set (groups s). toLowerCase h (group_name g) = toLowerCase h (trim name)"
      by (rule bexI [rotated]) simp
    with assms(2) show False by (simp add: list_ex_iff)
  qed
  then have "count_list (groups s) ?g = 0" by (simp add: count_list_0_iff)
  with assms show ?thesis
    by (simp add: createGroup_def handleCreateGroup_def Let_def listGroups_def)
qed

theorem createGroup_appends_witness:
  "listGroups (snd (createGroup latin1 1793560000123 (ascii '' Work '') (GROUP_COLORS ! 1)
      (snd (createGroup latin1 1 (ascii ''Family'') (GROUP_COLORS ! 0) empty_state))))
   = [\<lparr> group_id = ascii ''1'', group_name = ascii ''Family'',
        group_color = ascii ''#B38BFA'', group_initials = ascii ''F'' \<rparr>,
      \<lparr> group_id = ascii ''1793560000123'', group_name = ascii ''Work'',
        group_color = ascii ''#FF79F2'', group_initials = ascii ''W'' \<rparr>]"
proof -
  let ?s1 = "snd (createGroup latin1 1 (ascii ''Family'') (GROUP_COLORS ! 0) empty_state)"
  have s1: "groups ?s1 = [\<lparr> group_id = ascii ''1'', group_name = ascii ''Family'',
        group_color = ascii ''#B38BFA'', group_initials = ascii ''F'' \<rparr>]"
    by (simp add: handler_eval string_eval latin1_eval)
  have a: "trim (ascii '' Work '') \<noteq> []" by (simp add: string_eval)
  have b: "\<not> list_ex (\<lambda>g. toLowerCase latin1 (group_name g)
                 = toLowerCase latin1 (trim (ascii '' Work ''))) (groups ?s1)"
    unfolding s1 by (simp add: string_eval latin1_eval)
  have c: "toString 1793560000123 = ascii ''1793560000123''"
    by (simp add: toString_def digits.simps ascii_def)
  have d: "trim (ascii '' Work '') = ascii ''Work''" by (simp add: string_eval)
  have e: "getInitials latin1 (ascii '' Work '') = ascii ''W''"
    by (simp add: getInitials_def string_eval latin1_eval)
  from createGroup_appends [OF a b, of 1793560000123 "GROUP_COLORS ! 1"]
  have "listGroups (snd (createGroup latin1 1793560000123 (ascii '' Work '') (GROUP_COLORS ! 1) ?s1))
          = groups ?s1 @ [\<lparr> group_id = toString 1793560000123,
                               group_name = trim (ascii '' Work ''),
                               group_color = GROUP_COLORS ! 1,
                               group_initials = getInitials latin1 (ascii '' Work '') \<rparr>]"
    by (simp add: Let_def listGroups_def)
  also have "\<dots> = [\<lparr> group_id = ascii ''1'', group_name = ascii ''Family'',
        group_color = ascii ''#B38BFA'', group_initials = ascii ''F'' \<rparr>,
      \<lparr> group_id = ascii ''1793560000123'', group_name = ascii ''Work'',
        group_color = ascii ''#FF79F2'', group_initials = ascii ''W'' \<rparr>]"
    unfolding s1 c d e by (simp add: GROUP_COLORS_def)
  finally show ?thesis .
qed

section \<open>Adding and listing notes\<close>

text \<open>
  C5. For content that is empty or consists of white space only, \<open>addNote\<close> returns at
  its guard: nothing is appended, no error is raised, and the group and note
  collections are as before; the handler leaves the whole state as it is.
\<close>

theorem addNote_blank_ignored:
  assumes "list_all isWhiteSpace content"
  shows "fst (addNote l dateObj now groupId content s) = Ignored \<and>
         groups (snd (addNote l dateObj now groupId content s)) = groups s \<and>
         notes (snd (addNote l dateObj now groupId content s)) = notes s \<and>
         handleAddNote l dateObj now (s\<lparr>noteText := content\<rparr>)
           = (Ignored, s\<lparr>noteText := content\<rparr>)"
  using assms by (simp add: addNote_def handleAddNote_def trim_empty_iff)

theorem addNote_blank_ignored_witness:
  "list_all isWhiteSpace [0x20, 0x0A, 0x09, 0xA0] \<and>
   fst (addNote epoch_utc 0 0 (Some (ascii ''1'')) [0x20, 0x0A, 0x09, 0xA0] empty_state) = Ignored \<and>
   notes (snd (addNote epoch_utc 0 0 (Some (ascii ''1'')) [0x20, 0x0A, 0x09, 0xA0] empty_state)) = []"
proof -
  have a: "list_all isWhiteSpace [0x20, 0x0A, 0x09, 0xA0]" by (simp add: isWhiteSpace_def)
  from addNote_blank_ignored [OF a, of epoch_utc 0 0 "Some (ascii ''1'')" empty_state] a
  show ?thesis by (simp add: empty_state_def)
qed

lemma count_list_filter:
  "count_list (filter P xs) x = (if P x then count_list xs x else 0)"
  by (induction xs) auto

text \<open>
  C6. \<open>listNotesFor(groupId)\<close>, which is the \<open>currentNotes\<close> projection at that
  selection, holds exactly the notes of the collection whose \<open>groupId\<close> field is
  \<open>groupId\<close>, each as often as the collection holds it, and in the order of the
  collection; a note appended to the collection comes last in the list of its own group
  and leaves the lists of the other groups as they are.
\<close>

theorem listNotesFor_filters_in_order:
  "set (listNotesFor gid s) = {n \<in> set (notes s). note_groupId n = gid} \<and>
   subseq (listNotesFor gid s) (notes s) \<and>
   count_list (listNotesFor gid s) n
     = (if note_groupId n = gid then count_list (notes s) n else 0) \<and>
   listNotesFor gid (s\<lparr>notes := notes s @ [n]\<rparr>)
     = (if note_groupId n = gid then listNotesFor gid s @ [n] else listNotesFor gid s) \<and>
   currentNotes s = listNotesFor (selectedGroupId s) s"
  by (auto simp: listNotesFor_def currentNotes_def count_list_filter)

section \<open>Identifiers\<close>

lemma digit_unit:
  assumes "k < 10"
  shows "unat (0x30 + word_of_nat k :: codeunit) = 48 + k"
proof -
  have "unat (word_of_nat k :: codeunit) = k"
    using assms by (simp add: unat_of_nat)
  moreover have "unat (0x30 + word_of_nat k :: codeunit)
      = (unat (0x30 :: codeunit) + unat (word_of_nat k :: codeunit)) mod 2 ^ 16"
    by (simp add: unat_word_ariths)
  ultimately show ?thesis using assms by simp
qed

lemma uint_digit:
  assumes "k < 10"
  shows "uint (0x30 + word_of_nat k - 0x30 :: codeunit) = int k"
proof -
  have "(0x30 + word_of_nat k - 0x30 :: codeunit) = word_of_nat k" by simp
  moreover have "unat (word_of_nat k :: codeunit) = k"
    using assms by (simp add: unat_of_nat)
  ultimately show ?thesis by (simp only: uint_nat)
qed

lemma index_value_snoc:
  "index_value (s @ [c]) = 10 * index_value s + uint (c - 0x30)"
  by (simp add: index_value_def)

lemma index_value_digits: "index_value (digits n) = int n"
proof (induction n rule: digits.induct)
  case (1 n)
  show ?case
  proof (cases "n < 10")
    case True
    have "index_value [0x30 + word_of_nat n] = uint (0x30 + word_of_nat n - 0x30 :: codeunit)"
      by (simp only: index_value_def foldl.simps)
    with True show ?thesis
      by (subst digits.simps) (simp only: uint_digit if_True)
  next
    case False
    then have "digits n = digits (n div 10) @ [0x30 + word_of_nat (n mod 10)]"
      by (subst digits.simps) simp
    then have "index_value (digits n)
        = 10 * index_value (digits (n div 10))
            + uint (0x30 + word_of_nat (n mod 10) - 0x30 :: codeunit)"
      by (simp only: index_value_snoc)
    also have "\<dots> = 10 * int (n div 10) + int (n mod 10)"
      using 1 False by (simp only: uint_digit) simp
    also have "\<dots> = int n" by presburger
    finally show ?thesis .
  qed
qed

lemma digits_inj: "digits n = digits m \<Longrightarrow> n = m"
  by (metis index_value_digits of_nat_eq_iff)

lemma digits_no_minus: "0x2D \<notin> set (digits n)"
proof (induction n rule: digits.induct)
  case (1 n)
  have d: "(0x30 + word_of_nat k :: codeunit) \<noteq> 0x2D" if "k < 10" for k
  proof
    assume e: "(0x30 + word_of_nat k :: codeunit) = 0x2D"
    have "unat (0x30 + word_of_nat k :: codeunit) = 45" unfolding e by simp
    with that show False by (simp add: digit_unit)
  qed
  show ?case
  proof (cases "n < 10")
    case True
    with d [of n] show ?thesis by (subst digits.simps) auto
  next
    case False
    with 1 d [of "n mod 10"] show ?thesis by (subst digits.simps) auto
  qed
qed

lemma toString_inj: "toString i = toString j \<longleftrightarrow> i = j"
proof
  assume a: "toString i = toString j"
  show "i = j"
  proof (cases "i < 0"; cases "j < 0")
    assume "i < 0" "j < 0"
    with a have "nat (- i) = nat (- j)" by (auto simp: toString_def dest: digits_inj)
    with \<open>i < 0\<close> \<open>j < 0\<close> show ?thesis by simp
  next
    assume "i < 0" "\<not> j < 0"
    with a have "digits (nat j) = 0x2D # digits (nat (- i))"
      by (simp add: toString_def)
    then have "0x2D \<in> set (digits (nat j))" by simp
    then show ?thesis by (simp add: digits_no_minus)
  next
    assume "\<not> i < 0" "j < 0"
    with a have "digits (nat i) = 0x2D # digits (nat (- j))"
      by (simp add: toString_def)
    then have "0x2D \<in> set (digits (nat i))" by simp
    then show ?thesis by (simp add: digits_no_minus)
  next
    assume "\<not> i < 0" "\<not> j < 0"
    with a have "nat i = nat j" by (auto simp: toString_def dest: digits_inj)
    with \<open>\<not> i < 0\<close> \<open>\<not> j < 0\<close> show ?thesis by simp
  qed
qed simp

text \<open>
  C7, as amended. The id of a created group or note is the decimal rendering of the
  clock reading at which it was created; two ids are equal exactly when the two
  readings are, so ids issued at different readings differ.
\<close>

theorem newId_is_clock_reading:
  "(toString t1 = toString t2 \<longleftrightarrow> t1 = t2) \<and>
   (trim name \<noteq> [] \<longrightarrow> fst (createGroup h now name color s) \<noteq> DuplicateNameError \<longrightarrow>
      (\<exists>g. fst (createGroup h now name color s) = Appended g \<and> group_id g = toString now)) \<and>
   (trim content \<noteq> [] \<longrightarrow>
      (\<exists>n. fst (addNote l dateObj now groupId content s) = Appended n \<and>
           note_id n = toString now))"
  by (auto simp: toString_inj createGroup_def handleCreateGroup_def addNote_def
        handleAddNote_def Let_def DuplicateNameError_def)

theorem newId_is_clock_reading_witness:
  "(\<exists>g. fst (createGroup latin1 7 (ascii ''Work'') (GROUP_COLORS ! 0) empty_state) = Appended g \<and>
        group_id g = ascii ''7'') \<and>
   (\<exists>n. fst (addNote epoch_utc 0 7 None (ascii ''hi'') empty_state) = Appended n \<and>
        note_id n = ascii ''7'') \<and>
   toString 7 \<noteq> toString 8"
proof -
  have a: "trim (ascii ''Work'') \<noteq> []" "trim (ascii ''hi'') \<noteq> []"
    by (simp_all add: string_eval)
  have b: "fst (createGroup latin1 7 (ascii ''Work'') (GROUP_COLORS ! 0) empty_state)
             \<noteq> DuplicateNameError"
    by (simp add: createGroup_def handleCreateGroup_def empty_state_def a Let_def
          DuplicateNameError_def)
  have c: "toString 7 = ascii ''7''" "toString 8 = ascii ''8''"
    by (simp_all add: toString_def digits.simps ascii_def)
  from newId_is_clock_reading
         [of 7 8 "ascii ''Work''" latin1 7 "GROUP_COLORS ! 0" empty_state "ascii ''hi''"
             epoch_utc 0 None] a b
  show ?thesis by (simp add: c)
qed

text \<open>
  C7 as stated fails when two records are created at the same clock reading: two notes
  added at reading 0 both have the id \<open>0\<close>, and so has a group created at that reading.
\<close>

theorem newId_same_reading_collides:
  "map note_id (notes (snd (addNote epoch_utc 0 0 None (ascii ''b'')
      (snd (addNote epoch_utc 0 0 None (ascii ''a'') empty_state)))))
     = [ascii ''0'', ascii ''0''] \<and>
   map group_id (groups (snd (createGroup latin1 0 (ascii ''a'') (GROUP_COLORS ! 0) empty_state)))
     = [ascii ''0'']"
  by (simp add: handler_eval string_eval latin1_eval)

section \<open>Reading back what JSON.stringify wrote\<close>

lemma small_word_cases:
  assumes "d < 16"
  shows "d \<in> {0, 1, 2, 3, 4, 5, 6, 7, 8, 9, 10, 11, 12, 13, 14, 15 :: codeunit}"
proof -
  from assms have "unat d < 16" by (simp add: word_less_nat_alt)
  then show ?thesis
    unfolding insert_iff empty_iff word_unat_eq_iff [of d]
    by simp arith
qed

lemma hexval_hex_digit:
  fixes d :: codeunit
  assumes "d < 16"
  shows "hexval (hex_digit d) = Some d"
proof -
  from small_word_cases [OF assms]
  have "d = 0 \<or> d = 1 \<or> d = 2 \<or> d = 3 \<or> d = 4 \<or> d = 5 \<or> d = 6 \<or> d = 7 \<or> d = 8 \<or>
        d = 9 \<or> d = 10 \<or> d = 11 \<or> d = 12 \<or> d = 13 \<or> d = 14 \<or> d = 15"
    by simp
  then show ?thesis
    by (elim disjE) (simp_all add: hexval_def hex_digit_def)
qed

lemma nibble_top: "c div 16 div 16 div 16 < 16" for c :: codeunit
proof -
  have "unat c < 65536" using unsigned_less [of c, where 'a = nat] by simp
  then have "unat c div 16 div 16 div 16 < 16" by simp
  then show ?thesis by (simp add: word_less_nat_alt unat_div)
qed

lemma nibble_mod: "c mod 16 < 16" for c :: codeunit
  by (simp add: word_mod_less_divisor)

lemma nibbles:
  "((c div 16 div 16 div 16 * 16 + c div 16 div 16 mod 16) * 16 + c div 16 mod 16) * 16
     + c mod 16 = c" for c :: codeunit
  by (simp add: div_mult_mod_eq)

lemma parse_chars_unicode_escape:
  "parse_chars (unicode_escape c @ rest) = cons_char c (parse_chars rest)"
proof -
  have "parse_chars (unicode_escape c @ rest)
          = cons_char (((c div 16 div 16 div 16 * 16 + c div 16 div 16 mod 16) * 16
                          + c div 16 mod 16) * 16 + c mod 16) (parse_chars rest)"
    by (simp add: unicode_escape_def hexval_hex_digit nibble_top nibble_mod
          del: mult_numeral_left_semiring_numeral distrib_right_numeral distrib_left_numeral)
  then show ?thesis by (simp only: nibbles)
qed

lemma parse_chars_plain:
  "c \<noteq> 0x22 \<Longrightarrow> c \<noteq> 0x5C \<Longrightarrow> \<not> c < 0x20 \<Longrightarrow>
     parse_chars (c # rest) = cons_char c (parse_chars rest)"
  by simp

lemma parse_chars_escape_unit:
  "parse_chars (escape_unit c @ rest) = cons_char c (parse_chars rest)"
proof -
  consider "c = 0x08" | "c = 0x09" | "c = 0x0A" | "c = 0x0C" | "c = 0x0D" | "c = 0x22" | "c = 0x5C"
    | "c \<notin> {0x08, 0x09, 0x0A, 0x0C, 0x0D, 0x22, 0x5C}"
        "c < 0x20 \<or> is_high_surrogate c \<or> is_low_surrogate c"
    | "c \<notin> {0x08, 0x09, 0x0A, 0x0C, 0x0D, 0x22, 0x5C}"
        "\<not> (c < 0x20 \<or> is_high_surrogate c \<or> is_low_surrogate c)"
    by blast
  then show ?thesis
  proof cases
    case 8
    then have "escape_unit c = unicode_escape c" by (simp add: escape_unit_def)
    then show ?thesis by (simp add: parse_chars_unicode_escape)
  next
    case 9
    then have "escape_unit c = [c]" by (simp add: escape_unit_def)
    with 9 show ?thesis by simp
  qed (simp_all add: escape_unit_def unescape_def)
qed

lemma surrogate_plain:
  fixes c :: codeunit
  assumes "0xD800 \<le> c"
  shows "c \<noteq> 0x22" "c \<noteq> 0x5C" "\<not> c < 0x20"
  using assms by (auto simp: word_le_nat_alt word_less_nat_alt)

lemma parse_chars_quote_body:
  "parse_chars (quote_body s @ 0x22 # rest) = Inr (s, rest)"
proof (induction s rule: quote_body.induct)
  case 1
  show ?case by simp
next
  case (2 c)
  show ?case by (simp add: parse_chars_escape_unit cons_char_def)
next
  case (3 c d ds)
  show ?case
  proof (cases "is_high_surrogate c \<and> is_low_surrogate d")
    case True
    then have c: "0xD800 \<le> c" and d: "0xD800 \<le> d"
      by (auto simp: is_high_surrogate_def is_low_surrogate_def word_le_nat_alt)
    have "parse_chars (c # d # quote_body ds @ 0x22 # rest)
            = cons_char c (cons_char d (parse_chars (quote_body ds @ 0x22 # rest)))"
      using surrogate_plain [OF c] surrogate_plain [OF d]
      by (simp add: parse_chars_plain del: parse_chars.simps)
    moreover have "quote_body (c # d # ds) = c # d # quote_body ds"
      using True by simp
    moreover have "parse_chars (quote_body ds @ 0x22 # rest) = Inr (ds, rest)"
      using 3(1) True by simp
    ultimately show ?thesis
      by (simp add: cons_char_def del: parse_chars.simps quote_body.simps)
  next
    case False
    then have "quote_body (c # d # ds) = escape_unit c @ quote_body (d # ds)"
      by auto
    moreover have "parse_chars (quote_body (d # ds) @ 0x22 # rest) = Inr (d # ds, rest)"
      using 3(2) False by simp
    ultimately show ?thesis
      by (simp add: parse_chars_escape_unit cons_char_def
            del: parse_chars.simps quote_body.simps)
  qed
qed

lemma parse_value_string:
  "parse_value (Suc n) (QuoteJSONString s @ rest) = Inr (JString s, rest)"
  by (simp add: QuoteJSONString_def parse_chars_quote_body)

lemma skip_ws_Cons: "\<not> is_json_ws c \<Longrightarrow> skip_ws (c # cs) = c # cs"
  by (simp add: skip_ws_def)

lemma quote_not_ws: "skip_ws (QuoteJSONString s @ rest) = QuoteJSONString s @ rest"
  by (simp add: QuoteJSONString_def skip_ws_def is_json_ws_def)

lemma quote_key:
  "QuoteJSONString (ascii ''id'') = ascii ''\"id\"''"
  "QuoteJSONString (ascii ''name'') = ascii ''\"name\"''"
  "QuoteJSONString (ascii ''color'') = ascii ''\"color\"''"
  "QuoteJSONString (ascii ''initials'') = ascii ''\"initials\"''"
  "QuoteJSONString (ascii ''groupId'') = ascii ''\"groupId\"''"
  "QuoteJSONString (ascii ''content'') = ascii ''\"content\"''"
  "QuoteJSONString (ascii ''date'') = ascii ''\"date\"''"
  "QuoteJSONString (ascii ''time'') = ascii ''\"time\"''"
  by (simp_all add: QuoteJSONString_def ascii_def escape_unit_def is_high_surrogate_def
        is_low_surrogate_def)

lemma make_object_group:
  "make_object [(ascii ''id'', a), (ascii ''name'', b), (ascii ''color'', c), (ascii ''initials'', d)]
     = [(ascii ''id'', a), (ascii ''name'', b), (ascii ''color'', c), (ascii ''initials'', d)]"
  by (simp add: make_object_def define_property_def is_array_index_def is_digit_def ascii_def)

lemma make_object_note:
  "make_object [(ascii ''id'', a), (ascii ''groupId'', b), (ascii ''content'', c),
                (ascii ''date'', d), (ascii ''time'', e)]
     = [(ascii ''id'', a), (ascii ''groupId'', b), (ascii ''content'', c),
        (ascii ''date'', d), (ascii ''time'', e)]"
  by (simp add: make_object_def define_property_def is_array_index_def is_digit_def ascii_def)

lemma parse_value_null:
  "parse_value (Suc n) (ascii ''null'' @ rest) = Inr (JNull, rest)"
  by (simp add: ascii_def literal_def)

lemma parse_value_scalar:
  assumes "v = JNull \<or> (\<exists>s. v = JString s)"
  shows "parse_value (Suc n) (skip_ws (JSON_stringify v @ rest)) = Inr (v, rest)"
  using assms
  by (auto simp: parse_value_null parse_value_string quote_not_ws)
     (simp add: ascii_def skip_ws_def is_json_ws_def literal_def)

lemma skip_ws_punct:
  "skip_ws (0x7D # r) = 0x7D # r" "skip_ws (0x2C # r) = 0x2C # r"
  "skip_ws (0x3A # r) = 0x3A # r" "skip_ws (0x5D # r) = 0x5D # r"
  "skip_ws (0x7B # r) = 0x7B # r" "skip_ws (0x22 # r) = 0x22 # r"
  by (simp_all add: skip_ws_def is_json_ws_def)

lemma join_comma_Cons:
  "join_comma (x # xs) = x @ (if xs = [] then [] else 0x2C # join_comma xs)"
  by (cases xs) simp_all

lemma parse_members_key:
  "parse_members (Suc n) (QuoteJSONString k @ 0x3A # r) =
     (case parse_value (Suc n) (skip_ws r) of
        Inl e \<Rightarrow> Inl e
      | Inr (v, r2) \<Rightarrow>
          (case skip_ws r2 of
             [] \<Rightarrow> Inl SyntaxError
           | d # r3 \<Rightarrow>
               if d = 0x7D then Inr ([(k, v)], r3)
               else if d = 0x2C then
                 (case parse_members n (skip_ws r3) of
                    Inl e \<Rightarrow> Inl e
                  | Inr (ms, r4) \<Rightarrow> Inr ((k, v) # ms, r4))
               else Inl SyntaxError))"
  by (simp add: QuoteJSONString_def parse_chars_quote_body skip_ws_punct)

lemma parse_members_scalars:
  assumes "ps \<noteq> []" and "\<forall>p\<in>set ps. snd p = JNull \<or> (\<exists>s. snd p = JString s)"
    and "length ps \<le> n"
  shows "parse_members n
           (join_comma (map (\<lambda>p. QuoteJSONString (fst p) @ 0x3A # JSON_stringify (snd p)) ps)
              @ 0x7D # rest)
         = Inr (ps, rest)"
  using assms
proof (induction ps arbitrary: n)
  case Nil
  then show ?case by simp
next
  case (Cons p ps)
  let ?text = "\<lambda>p. QuoteJSONString (fst p) @ 0x3A # JSON_stringify (snd p)"
  from Cons.prems obtain m where n: "n = Suc m" and m: "length ps \<le> m"
    by (cases n) auto
  from Cons.prems have sc: "snd p = JNull \<or> (\<exists>s. snd p = JString s)" by simp
  show ?case
  proof (cases ps)
    case Nil
    have "parse_members (Suc m) (?text p @ 0x7D # rest) = Inr ([(fst p, snd p)], rest)"
      by (simp add: parse_members_key skip_ws_punct parse_value_scalar [OF sc])
    with Nil n show ?thesis by simp
  next
    case (Cons q qs)
    let ?more = "join_comma (map ?text ps) @ 0x7D # rest"
    have ih: "parse_members m ?more = Inr (ps, rest)"
      using Cons.IH [of m] Cons.prems m Cons by simp
    have start: "skip_ws ?more = ?more"
      using Cons by (simp add: quote_not_ws join_comma_Cons)
    have "parse_members (Suc m) (?text p @ 0x2C # ?more) = Inr ((fst p, snd p) # ps, rest)"
      by (simp add: parse_members_key skip_ws_punct parse_value_scalar [OF sc] start ih)
    moreover have "join_comma (map ?text (p # ps)) = ?text p @ 0x2C # join_comma (map ?text ps)"
      using Cons by simp
    ultimately show ?thesis using n by simp
  qed
qed

lemma parse_value_object_start:
  "parse_value (Suc n) (0x7B # QuoteJSONString k @ r) =
     (case parse_members n (QuoteJSONString k @ r) of
        Inl e \<Rightarrow> Inl e
      | Inr (ms, r') \<Rightarrow> Inr (JObject (make_object ms), r'))"
  by (simp add: QuoteJSONString_def skip_ws_punct)

lemma parse_value_flat_object:
  assumes "ps \<noteq> []" and "\<forall>p\<in>set ps. snd p = JNull \<or> (\<exists>s. snd p = JString s)"
    and "length ps < n"
  shows "parse_value n (JSON_stringify (JObject ps) @ rest)
         = Inr (JObject (make_object ps), rest)"
proof -
  let ?text = "\<lambda>p. QuoteJSONString (fst p) @ 0x3A # JSON_stringify (snd p)"
  from assms(3) obtain m where n: "n = Suc m" and m: "length ps \<le> m"
    by (cases n) auto
  from assms(1) obtain p qs where ps: "ps = p # qs" by (cases ps) auto
  have members: "parse_members m (join_comma (map ?text ps) @ 0x7D # rest) = Inr (ps, rest)"
    using assms(1,2) m by (rule parse_members_scalars)
  have "join_comma (map ?text ps) @ 0x7D # rest
          = QuoteJSONString (fst p) @ (0x3A # JSON_stringify (snd p)
              @ (if qs = [] then [] else 0x2C # join_comma (map ?text qs)) @ 0x7D # rest)"
    by (simp add: ps join_comma_Cons)
  with members show ?thesis
    unfolding n by (simp add: parse_value_object_start del: parse_value.simps)
qed

lemma object_not_ws:
  "skip_ws (JSON_stringify (JObject ps) @ rest) = JSON_stringify (JObject ps) @ rest"
  by (simp add: skip_ws_punct)

lemma parse_elements_flat:
  assumes "vs \<noteq> []"
    and "\<forall>v\<in>set vs. \<exists>ps. v = JObject ps \<and> ps \<noteq> [] \<and>
           (\<forall>p\<in>set ps. snd p = JNull \<or> (\<exists>s. snd p = JString s)) \<and>
           length ps \<le> m \<and> make_object ps = ps"
    and "length vs + m \<le> n"
  shows "parse_elements n (join_comma (map JSON_stringify vs) @ 0x5D # rest) = Inr (vs, rest)"
  using assms
proof (induction vs arbitrary: n)
  case Nil
  then show ?case by simp
next
  case (Cons v vs)
  from Cons.prems obtain k where n: "n = Suc k" and k: "length vs + m \<le> k"
    by (cases n) auto
  from Cons.prems obtain ps where v: "v = JObject ps" and ps: "ps \<noteq> []"
    "\<forall>p\<in>set ps. snd p = JNull \<or> (\<exists>s. snd p = JString s)" "length ps \<le> m" "make_object ps = ps"
    by auto
  have "length ps < Suc k" using ps(3) k by simp
  from parse_value_flat_object [OF ps(1,2) this]
  have val: "parse_value (Suc k) (JSON_stringify v @ r) = Inr (v, r)" for r
    using v ps(4) by simp
  show ?case
  proof (cases vs)
    case Nil
    have "parse_elements (Suc k) (JSON_stringify v @ 0x5D # rest) = Inr ([v], rest)"
      by (simp add: val skip_ws_punct del: JSON_stringify.simps)
    with Nil n show ?thesis by simp
  next
    case (Cons w ws)
    let ?more = "join_comma (map JSON_stringify vs) @ 0x5D # rest"
    have ih: "parse_elements k ?more = Inr (vs, rest)"
      using Cons.IH [of k] Cons.prems k Cons by simp
    from Cons.prems Cons obtain qs where "w = JObject qs" by auto
    then have start: "skip_ws ?more = ?more"
      using Cons by (simp add: join_comma_Cons skip_ws_punct)
    have "parse_elements (Suc k) (JSON_stringify v @ 0x2C # ?more) = Inr (v # vs, rest)"
      by (simp add: val skip_ws_punct start ih del: JSON_stringify.simps)
    moreover have "join_comma (map JSON_stringify (v # vs))
                     = JSON_stringify v @ 0x2C # join_comma (map JSON_stringify vs)"
      using Cons by (simp add: join_comma_Cons)
    ultimately show ?thesis using n by (simp del: JSON_stringify.simps)
  qed
qed

lemma length_join_comma:
  assumes "xs \<noteq> []" and "\<forall>x\<in>set xs. m < length x"
  shows "length xs + m \<le> length (join_comma xs)"
  using assms by (induction xs rule: join_comma.induct) auto

lemma JSON_parse_flat_array:
  assumes "\<forall>v\<in>set vs. \<exists>ps. v = JObject ps \<and> ps \<noteq> [] \<and>
           (\<forall>p\<in>set ps. snd p = JNull \<or> (\<exists>s. snd p = JString s)) \<and>
           length ps \<le> m \<and> make_object ps = ps"
    and "\<forall>v\<in>set vs. m < length (JSON_stringify v)"
  shows "JSON_parse (JSON_stringify (JArray vs)) = Inr (JArray vs)"
proof (cases vs)
  case Nil
  then show ?thesis
    by (simp add: JSON_parse_def skip_ws_def is_json_ws_def)
next
  case (Cons w ws)
  let ?join = "join_comma (map JSON_stringify vs)"
  let ?s = "0x5B # ?join @ [0x5D]"
  from assms(1) Cons obtain qs where w: "w = JObject qs" by auto
  have "length (map JSON_stringify vs) + m \<le> length ?join"
    by (rule length_join_comma) (use Cons assms(2) in auto)
  then have fuel: "length vs + m \<le> length ?s" by simp
  have elems: "parse_elements (length ?s) (?join @ 0x5D # []) = Inr (vs, [])"
    by (rule parse_elements_flat [OF _ assms(1) fuel]) (simp add: Cons)
  have "?join = 0x7B # tl ?join"
    unfolding Cons w by (simp add: join_comma_Cons)
  then obtain r where join: "?join = 0x7B # r" ..
  have "parse_value (Suc (length ?s)) (skip_ws ?s) = Inr (JArray vs, [])"
    using elems unfolding join
    by (simp add: skip_ws_def is_json_ws_def)
  then show ?thesis
    by (simp add: JSON_parse_def skip_ws_def)
qed

section \<open>The parser consumes its input and has enough fuel\<close>

lemma length_skip_ws: "length (skip_ws s) \<le> length s"
  by (simp add: skip_ws_def length_dropWhile_le)

lemma cons_char_Inr:
  "cons_char c x = Inr (s, r) \<Longrightarrow> \<exists>s'. x = Inr (s', r)"
  by (auto simp: cons_char_def split: sum.splits)

lemma parse_chars_shorter:
  "parse_chars s = Inr (x, r) \<Longrightarrow> length r < length s"
proof (induction s arbitrary: x r rule: length_induct)
  case (1 s)
  show ?case
  proof (cases s)
    case Nil
    with 1 show ?thesis by simp
  next
    case (Cons c cs)
    from "1.prems" Cons
    consider "r = cs"
      | c' r' where "cons_char c' (parse_chars r') = Inr (x, r)" "length r' < length s"
      by (auto split: if_splits list.splits option.splits)
    then show ?thesis
    proof cases
      case 1
      with Cons show ?thesis by simp
    next
      case 2
      from cons_char_Inr [OF 2(1)] obtain s' where "parse_chars r' = Inr (s', r)" ..
      with "1.IH" 2(2) have "length r < length r'" by blast
      with 2(2) show ?thesis by simp
    qed
  qed
qed

lemma literal_shorter: "w \<noteq> [] \<Longrightarrow> literal w v s = Inr (x, r) \<Longrightarrow> length r < length s"
  by (cases s) (auto simp: literal_def split: if_splits)

lemma skip_ws_Cons_shorter: "skip_ws s = d # r \<Longrightarrow> length r < length s"
  using length_skip_ws [of s] by simp

lemma parse_value_step_shorter:
  assumes pe: "\<And>s vs r. parse_elements n s = Inr (vs, r) \<Longrightarrow> length r < length s"
    and pm: "\<And>s ms r. parse_members n s = Inr (ms, r) \<Longrightarrow> length r < length s"
    and res: "parse_value (Suc n) s = Inr (v, r)"
  shows "length r < length s"
proof (cases s)
  case Nil
  with res show ?thesis by simp
next
  case (Cons c cs)
  consider (str) "c = 0x22" | (arr) "c = 0x5B" | (obj) "c = 0x7B"
    | (lit) "c \<notin> {0x22, 0x5B, 0x7B}" by blast
  then show ?thesis
  proof cases
    case str
    with res Cons show ?thesis
      by (auto split: sum.splits dest: parse_chars_shorter)
  next
    case arr
    with res Cons obtain d r0 where sk: "skip_ws cs = d # r0"
      by (auto split: list.splits)
    from skip_ws_Cons_shorter [OF sk] have r0: "length r0 < length cs" .
    show ?thesis
    proof (cases "d = 0x5D")
      case True
      with res Cons arr sk r0 show ?thesis by simp
    next
      case False
      with res Cons arr sk obtain vs where "parse_elements n (d # r0) = Inr (vs, r)"
        by (auto split: sum.splits)
      from pe [OF this] r0 Cons show ?thesis by simp
    qed
  next
    case obj
    with res Cons obtain d r0 where sk: "skip_ws cs = d # r0"
      by (auto split: list.splits)
    from skip_ws_Cons_shorter [OF sk] have r0: "length r0 < length cs" .
    show ?thesis
    proof (cases "d = 0x7D")
      case True
      with res Cons obj sk r0 show ?thesis by simp
    next
      case False
      with res Cons obj sk obtain ms where "parse_members n (d # r0) = Inr (ms, r)"
        by (auto split: sum.splits)
      from pm [OF this] r0 Cons show ?thesis by simp
    qed
  next
    case lit
    with res Cons have "\<exists>w u. w \<noteq> [] \<and> literal w u s = Inr (v, r)"
      by (auto simp: ascii_def split: if_splits)
    then show ?thesis by (auto dest: literal_shorter)
  qed
qed

lemma parse_elements_step_shorter:
  assumes pv: "\<And>s v r. parse_value (Suc n) s = Inr (v, r) \<Longrightarrow> length r < length s"
    and pe: "\<And>s vs r. parse_elements n s = Inr (vs, r) \<Longrightarrow> length r < length s"
    and res: "parse_elements (Suc n) s = Inr (vs, r)"
  shows "length r < length s"
proof -
  from res obtain v r1 d r2 where v: "parse_value (Suc n) s = Inr (v, r1)"
    and sk: "skip_ws r1 = d # r2"
    by (auto split: sum.splits list.splits)
  from pv [OF v] skip_ws_Cons_shorter [OF sk] have r2: "length r2 < length s" by simp
  show ?thesis
  proof (cases "d = 0x5D")
    case True
    with res v sk r2 show ?thesis by simp
  next
    case False
    with res v sk obtain ws where "parse_elements n (skip_ws r2) = Inr (ws, r)"
      by (auto split: sum.splits if_splits)
    from pe [OF this] length_skip_ws [of r2] r2 show ?thesis by simp
  qed
qed

lemma parse_members_step_shorter:
  assumes pv: "\<And>s v r. parse_value (Suc n) s = Inr (v, r) \<Longrightarrow> length r < length s"
    and pm: "\<And>s ms r. parse_members n s = Inr (ms, r) \<Longrightarrow> length r < length s"
    and res: "parse_members (Suc n) s = Inr (ms, r)"
  shows "length r < length s"
proof -
  from res obtain q cs where s: "s = q # cs" and q: "q = 0x22"
    by (cases s) (auto split: if_splits)
  from res s q obtain k r0 col r1 where k: "parse_chars cs = Inr (k, r0)"
    and sk0: "skip_ws r0 = col # r1" and col: "col = 0x3A"
    by (auto split: sum.splits list.splits if_splits)
  from res s q k sk0 col obtain v r2 d r3 where v: "parse_value (Suc n) (skip_ws r1) = Inr (v, r2)"
    and sk2: "skip_ws r2 = d # r3"
    by (auto split: sum.splits list.splits)
  from parse_chars_shorter [OF k] skip_ws_Cons_shorter [OF sk0] length_skip_ws [of r1]
    pv [OF v] skip_ws_Cons_shorter [OF sk2] s
  have r3: "length r3 < length s" by simp
  show ?thesis
  proof (cases "d = 0x7D")
    case True
    with res s q k sk0 col v sk2 r3 show ?thesis by simp
  next
    case False
    with res s q k sk0 col v sk2 obtain ms' where "parse_members n (skip_ws r3) = Inr (ms', r)"
      by (auto split: sum.splits if_splits)
    from pm [OF this] length_skip_ws [of r3] r3 show ?thesis by simp
  qed
qed

lemma parser_shorter:
  "(\<forall>s v r. parse_value n s = Inr (v, r) \<longrightarrow> length r < length s) \<and>
   (\<forall>s vs r. parse_elements n s = Inr (vs, r) \<longrightarrow> length r < length s) \<and>
   (\<forall>s ms r. parse_members n s = Inr (ms, r) \<longrightarrow> length r < length s)"
proof (induction n)
  case 0
  show ?case by simp
next
  case (Suc n)
  have pv: "length r < length s" if "parse_value (Suc n) s = Inr (v, r)" for s v r
    using Suc that by (blast intro: parse_value_step_shorter)
  have pe: "length r < length s" if "parse_elements (Suc n) s = Inr (vs, r)" for s vs r
    using Suc pv that by (blast intro: parse_elements_step_shorter)
  have pm: "length r < length s" if "parse_members (Suc n) s = Inr (ms, r)" for s ms r
    using Suc pv that by (blast intro: parse_members_step_shorter)
  from pv pe pm show ?case by blast
qed

lemma cons_char_fuel: "cons_char c x = Inl OutOfFuel \<Longrightarrow> x = Inl OutOfFuel"
  by (auto simp: cons_char_def split: sum.splits)

lemma parse_chars_fuel: "parse_chars s \<noteq> Inl OutOfFuel"
proof (induction s rule: length_induct)
  case (1 s)
  show ?case
  proof
    assume a: "parse_chars s = Inl OutOfFuel"
    then obtain c cs where s: "s = c # cs" by (cases s) auto
    from a s obtain c' r' where "cons_char c' (parse_chars r') = Inl OutOfFuel"
      "length r' < length s"
      by (auto split: if_splits list.splits option.splits)
    with "1.IH" show False by (blast dest: cons_char_fuel)
  qed
qed

lemma parse_value_shorter: "parse_value n s = Inr (v, r) \<Longrightarrow> length r < length s"
  using parser_shorter [of n] by blast

lemma parse_value_step_fuel:
  assumes pe: "\<And>s. length s < n \<Longrightarrow> parse_elements n s \<noteq> Inl OutOfFuel"
    and pm: "\<And>s. length s < n \<Longrightarrow> parse_members n s \<noteq> Inl OutOfFuel"
    and len: "length s < Suc n"
  shows "parse_value (Suc n) s \<noteq> Inl OutOfFuel"
proof
  assume a: "parse_value (Suc n) s = Inl OutOfFuel"
  then obtain c cs where s: "s = c # cs" by (cases s) auto
  consider (str) "c = 0x22" | (arr) "c = 0x5B" | (obj) "c = 0x7B"
    | (lit) "c \<notin> {0x22, 0x5B, 0x7B}" by blast
  then show False
  proof cases
    case str
    with a s parse_chars_fuel [of cs] show False
      by (auto split: sum.splits)
  next
    case arr
    with a s obtain d r0 where sk: "skip_ws cs = d # r0"
      and "parse_elements n (d # r0) = Inl OutOfFuel"
      by (auto split: list.splits if_splits sum.splits)
    moreover have "length (d # r0) < n"
      using length_skip_ws [of cs] sk len s by simp
    ultimately show False using pe by blast
  next
    case obj
    with a s obtain d r0 where sk: "skip_ws cs = d # r0"
      and "parse_members n (d # r0) = Inl OutOfFuel"
      by (auto split: list.splits if_splits sum.splits)
    moreover have "length (d # r0) < n"
      using length_skip_ws [of cs] sk len s by simp
    ultimately show False using pm by blast
  next
    case lit
    with a s show False
      by (auto simp: literal_def split: if_splits)
  qed
qed

lemma parse_elements_step_fuel:
  assumes pv: "\<And>s. length s < Suc n \<Longrightarrow> parse_value (Suc n) s \<noteq> Inl OutOfFuel"
    and pe: "\<And>s. length s < n \<Longrightarrow> parse_elements n s \<noteq> Inl OutOfFuel"
    and len: "length s < Suc n"
  shows "parse_elements (Suc n) s \<noteq> Inl OutOfFuel"
proof
  assume a: "parse_elements (Suc n) s = Inl OutOfFuel"
  with pv [OF len] obtain v r1 d r2 where v: "parse_value (Suc n) s = Inr (v, r1)"
    and sk: "skip_ws r1 = d # r2" and "parse_elements n (skip_ws r2) = Inl OutOfFuel"
    by (auto split: sum.splits list.splits if_splits)
  moreover have "length (skip_ws r2) < n"
    using parse_value_shorter [OF v] skip_ws_Cons_shorter [OF sk] length_skip_ws [of r2] len
    by simp
  ultimately show False using pe by blast
qed

lemma parse_members_step_fuel:
  assumes pv: "\<And>s. length s < Suc n \<Longrightarrow> parse_value (Suc n) s \<noteq> Inl OutOfFuel"
    and pm: "\<And>s. length s < n \<Longrightarrow> parse_members n s \<noteq> Inl OutOfFuel"
    and len: "length s < Suc n"
  shows "parse_members (Suc n) s \<noteq> Inl OutOfFuel"
proof
  assume a: "parse_members (Suc n) s = Inl OutOfFuel"
  then obtain q cs where s: "s = q # cs" and q: "q = 0x22"
    by (cases s) (auto split: if_splits)
  from a s q parse_chars_fuel [of cs] obtain k r0 col r1
    where k: "parse_chars cs = Inr (k, r0)"
      and sk0: "skip_ws r0 = col # r1" and col: "col = 0x3A"
    by (auto split: sum.splits list.splits if_splits)
  have l1: "length (skip_ws r1) < Suc n"
    using parse_chars_shorter [OF k] skip_ws_Cons_shorter [OF sk0] length_skip_ws [of r1] len s
    by simp
  from a s q k sk0 col pv [OF l1] obtain v r2 d r3
    where v: "parse_value (Suc n) (skip_ws r1) = Inr (v, r2)"
      and sk2: "skip_ws r2 = d # r3" and "parse_members n (skip_ws r3) = Inl OutOfFuel"
    by (auto split: sum.splits list.splits if_splits)
  moreover have "length (skip_ws r3) < n"
    using l1 parse_value_shorter [OF v] skip_ws_Cons_shorter [OF sk2] length_skip_ws [of r3]
    by simp
  ultimately show False using pm by blast
qed

lemma parser_fuel:
  "(\<forall>s. length s < n \<longrightarrow> parse_value n s \<noteq> Inl OutOfFuel) \<and>
   (\<forall>s. length s < n \<longrightarrow> parse_elements n s \<noteq> Inl OutOfFuel) \<and>
   (\<forall>s. length s < n \<longrightarrow> parse_members n s \<noteq> Inl OutOfFuel)"
proof (induction n)
  case 0
  show ?case by simp
next
  case (Suc n)
  from Suc have e: "parse_elements n s \<noteq> Inl OutOfFuel" if "length s < n" for s
    using that by blast
  from Suc have m: "parse_members n s \<noteq> Inl OutOfFuel" if "length s < n" for s
    using that by blast
  have pv: "parse_value (Suc n) s \<noteq> Inl OutOfFuel" if "length s < Suc n" for s
    using e m that by (rule parse_value_step_fuel)
  have pe: "parse_elements (Suc n) s \<noteq> Inl OutOfFuel" if "length s < Suc n" for s
    using pv e that by (rule parse_elements_step_fuel)
  have pm: "parse_members (Suc n) s \<noteq> Inl OutOfFuel" if "length s < Suc n" for s
    using pv m that by (rule parse_members_step_fuel)
  from pv pe pm show ?case by blast
qed

lemma JSON_parse_fuel: "JSON_parse s \<noteq> Inl OutOfFuel"
proof -
  have "length (skip_ws s) < Suc (length s)"
    using length_skip_ws [of s] by simp
  with parser_fuel [of "Suc (length s)"]
  have "parse_value (Suc (length s)) (skip_ws s) \<noteq> Inl OutOfFuel" by blast
  then show ?thesis
    by (auto simp: JSON_parse_def split: sum.splits)
qed

section \<open>Saving and loading the collections\<close>

lemma group_json_flat:
  "\<exists>ps. group_json g = JObject ps \<and> ps \<noteq> [] \<and>
        (\<forall>p\<in>set ps. snd p = JNull \<or> (\<exists>s. snd p = JString s)) \<and>
        length ps \<le> 4 \<and> make_object ps = ps"
  by (simp add: group_json_def make_object_group)

lemma note_json_flat:
  "\<exists>ps. note_json n = JObject ps \<and> ps \<noteq> [] \<and>
        (\<forall>p\<in>set ps. snd p = JNull \<or> (\<exists>s. snd p = JString s)) \<and>
        length ps \<le> 5 \<and> make_object ps = ps"
  by (cases "note_groupId n") (simp_all add: note_json_def nullable_json_def make_object_note)

lemma group_json_length: "4 < length (JSON_stringify (group_json g))"
  by (simp add: group_json_def QuoteJSONString_def)

lemma note_json_length: "5 < length (JSON_stringify (note_json n))"
  by (simp add: note_json_def QuoteJSONString_def)

lemma json_group_inverse: "json_group (group_json g) = Some g"
  by (simp add: json_group_def group_json_def json_string_def)

lemma json_note_inverse: "json_note (note_json n) = Some n"
  by (cases "note_groupId n")
     (simp_all add: json_note_def note_json_def json_string_def json_nullable_def
        nullable_json_def)

lemma those_map_inverse:
  assumes "\<And>x. f (g x) = Some x"
  shows "those (map (f \<circ> g) xs) = Some xs"
  by (induction xs) (simp_all add: assms)

lemma JSON_parse_groups:
  "JSON_parse (JSON_stringify (JArray (map group_json gs))) = Inr (JArray (map group_json gs))"
  by (rule JSON_parse_flat_array [where m = 4])
     (auto simp: group_json_flat group_json_length simp del: JSON_stringify.simps)

lemma JSON_parse_notes:
  "JSON_parse (JSON_stringify (JArray (map note_json ns))) = Inr (JArray (map note_json ns))"
  by (rule JSON_parse_flat_array [where m = 5])
     (auto simp: note_json_flat note_json_length simp del: JSON_stringify.simps)

lemma stringify_array_nonempty: "JSON_stringify (JArray vs) \<noteq> []"
  by simp

lemma loadGroups_saveGroups: "loadGroups (saveGroups gs st) = Inr gs"
  by (simp add: loadGroups_def saveGroups_def JSON_parse_groups json_collection_def
        stringify_array_nonempty
        those_map_inverse [of json_group group_json, OF json_group_inverse]
      del: JSON_stringify.simps)

lemma loadNotes_saveNotes: "loadNotes (saveNotes ns st) = Inr ns"
  by (simp add: loadNotes_def saveNotes_def JSON_parse_notes json_collection_def
        stringify_array_nonempty
        those_map_inverse [of json_note note_json, OF json_note_inverse]
      del: JSON_stringify.simps)

lemma slot_names: "ascii ''pocketGroups'' \<noteq> ascii ''pocketNotes''"
  by (simp add: ascii_def)

lemma loadGroups_saveNotes: "loadGroups (saveNotes ns st) = loadGroups st"
  using slot_names by (simp add: loadGroups_def saveNotes_def)

lemma loadNotes_saveGroups: "loadNotes (saveGroups gs st) = loadNotes st"
  using slot_names by (simp add: loadNotes_def saveGroups_def)

lemma addNote_result:
  assumes "trim content \<noteq> []"
  shows "addNote l dateObj now groupId content s
     = (Appended \<lparr> note_id = toString now, note_groupId = groupId, note_content = content,
                    note_date = formatDate l dateObj, note_time = formatTime l dateObj \<rparr>,
        s\<lparr> selectedGroupId := groupId, noteText := [],
           notes := notes s @ [\<lparr> note_id = toString now, note_groupId = groupId,
                                   note_content = content, note_date = formatDate l dateObj,
                                   note_time = formatTime l dateObj \<rparr>] \<rparr>)"
  using assms by (simp add: addNote_def handleAddNote_def Let_def)

lemma addNote_rendered_result:
  assumes "trim content \<noteq> []"
  shows "addNote_rendered l dateObj now groupId content (s, st)
     = (Appended \<lparr> note_id = toString now, note_groupId = groupId, note_content = content,
                    note_date = formatDate l dateObj, note_time = formatTime l dateObj \<rparr>,
        s\<lparr> selectedGroupId := groupId, noteText := [],
           notes := notes s @ [\<lparr> note_id = toString now, note_groupId = groupId,
                                   note_content = content, note_date = formatDate l dateObj,
                                   note_time = formatTime l dateObj \<rparr>] \<rparr>,
        saveNotes (notes s @ [\<lparr> note_id = toString now, note_groupId = groupId,
                                   note_content = content, note_date = formatDate l dateObj,
                                   note_time = formatTime l dateObj \<rparr>]) st)"
  by (simp add: addNote_rendered_def addNote_result [OF assms] effects_def)

text \<open>
  C2. For all group and note collections, what the two effects write under
  \<open>pocketGroups\<close> and \<open>pocketNotes\<close> is read back by the initialisers as the same
  lists: the same records with the same field values in the same order. This holds for
  each slot alone and for both written one after the other, and the state of the next
  start holds exactly these collections.
\<close>

theorem persistence_round_trip:
  "loadGroups (saveGroups gs st) = Inr gs \<and>
   loadNotes (saveNotes ns st) = Inr ns \<and>
   loadGroups (saveNotes ns (saveGroups gs st)) = Inr gs \<and>
   loadNotes (saveNotes ns (saveGroups gs st)) = Inr ns \<and>
   map_sum id fst (mount (saveNotes ns (saveGroups gs st)))
     = Inr \<lparr> groups = gs, notes = ns, selectedGroupId = None, isModalOpen = False,
             groupName = [], selectedColor = GROUP_COLORS ! 0, noteText = [] \<rparr>"
  by (simp add: loadGroups_saveGroups loadNotes_saveNotes loadGroups_saveNotes
        loadNotes_saveGroups mount_def)

lemma loadGroups_initialGroups:
  "loadGroups st = (case initialGroups JSON_parse (JArray []) st of
                      Inl e \<Rightarrow> Inl e
                    | Inr v \<Rightarrow> json_collection json_group v)"
  by (simp add: loadGroups_def initialGroups_def lazy_initialiser_def getItem_def truthy_def
        json_collection_def split: option.splits)

lemma loadNotes_initialNotes:
  "loadNotes st = (case initialNotes JSON_parse (JArray []) st of
                     Inl e \<Rightarrow> Inl e
                   | Inr v \<Rightarrow> json_collection json_note v)"
  by (simp add: loadNotes_def initialNotes_def lazy_initialiser_def getItem_def truthy_def
        json_collection_def split: option.splits)

text \<open>
  A value that reads as a record of the data model is exactly the object of that
  record, so a typed collection that was loaded is the parsed payload itself.
\<close>

lemma json_string_exact: "json_string v = Some s \<Longrightarrow> v = JString s"
  by (cases v) (simp_all add: json_string_def)

lemma json_nullable_exact: "json_nullable v = Some x \<Longrightarrow> v = nullable_json x"
  by (cases v) (auto simp: json_nullable_def nullable_json_def)

lemma json_group_exact:
  assumes "json_group v = Some g"
  shows "v = group_json g"
proof -
  from assms obtain ps where v: "v = JObject ps"
    by (cases v) (simp_all add: json_group_def)
  from assms v have keys: "map fst ps = [ascii ''id'', ascii ''name'', ascii ''color'',
      ascii ''initials'']"
    by (simp add: json_group_def split: if_splits)
  then obtain a b c d where ps: "ps = [(ascii ''id'', a), (ascii ''name'', b),
      (ascii ''color'', c), (ascii ''initials'', d)]"
    by (auto simp: map_eq_Cons_conv)
  from assms v ps obtain i n k t where
    "json_string a = Some i" "json_string b = Some n" "json_string c = Some k"
    "json_string d = Some t"
    and g: "g = \<lparr> group_id = i, group_name = n, group_color = k, group_initials = t \<rparr>"
    by (auto simp: json_group_def split: option.splits)
  then have "a = JString i" "b = JString n" "c = JString k" "d = JString t"
    by (simp_all add: json_string_exact)
  with v ps g show ?thesis by (simp add: group_json_def)
qed

lemma json_note_exact:
  assumes "json_note v = Some n"
  shows "v = note_json n"
proof -
  from assms obtain ps where v: "v = JObject ps"
    by (cases v) (simp_all add: json_note_def)
  from assms v have keys: "map fst ps = [ascii ''id'', ascii ''groupId'', ascii ''content'',
      ascii ''date'', ascii ''time'']"
    by (simp add: json_note_def split: if_splits)
  then obtain a b c d e where ps: "ps = [(ascii ''id'', a), (ascii ''groupId'', b),
      (ascii ''content'', c), (ascii ''date'', d), (ascii ''time'', e)]"
    by (auto simp: map_eq_Cons_conv)
  from assms v ps obtain i g k t u where
    "json_string a = Some i" "json_nullable b = Some g" "json_string c = Some k"
    "json_string d = Some t" "json_string e = Some u"
    and n: "n = \<lparr> note_id = i, note_groupId = g, note_content = k, note_date = t,
                   note_time = u \<rparr>"
    by (auto simp: json_note_def split: option.splits)
  then have "a = JString i" "b = nullable_json g" "c = JString k" "d = JString t"
    "e = JString u"
    by (simp_all add: json_string_exact json_nullable_exact)
  with v ps n show ?thesis by (simp add: note_json_def)
qed

lemma those_exact:
  assumes "\<And>v x. f v = Some x \<Longrightarrow> v = g x"
  shows "those (map f vs) = Some xs \<Longrightarrow> vs = map g xs"
proof (induction vs arbitrary: xs)
  case Nil
  then show ?case by simp
next
  case (Cons v vs)
  then show ?case
    by (auto simp: assms split: option.splits)
qed

lemma json_collection_exact:
  assumes "\<And>v x. f v = Some x \<Longrightarrow> v = g x"
    and "json_collection f v = Inr xs"
  shows "v = JArray (map g xs)"
  using assms(2) those_exact [of f g, OF assms(1)]
  by (cases v) (auto simp: json_collection_def split: option.splits)

lemma loadGroups_exact:
  assumes "loadGroups st = Inr gs"
  shows "initialGroups JSON_parse (JArray []) st = Inr (JArray (map group_json gs))"
  using assms json_collection_exact [of json_group group_json, OF json_group_exact]
  by (auto simp: loadGroups_initialGroups split: sum.splits)

lemma loadNotes_exact:
  assumes "loadNotes st = Inr ns"
  shows "initialNotes JSON_parse (JArray []) st = Inr (JArray (map note_json ns))"
  using assms json_collection_exact [of json_note note_json, OF json_note_exact]
  by (auto simp: loadNotes_initialNotes split: sum.splits)

lemma initial_fuel:
  "initialGroups JSON_parse (JArray []) st \<noteq> Inl OutOfFuel"
  "initialNotes JSON_parse (JArray []) st \<noteq> Inl OutOfFuel"
  using JSON_parse_fuel
  by (auto simp: initialGroups_def initialNotes_def lazy_initialiser_def split: option.splits)

text \<open>
  C8, as amended. At the start each collection takes the value of its initialiser, once.
  For a slot that does not hold the empty string this is the load as the specification
  words it: an absent slot gives the empty collection, and a slot with a non-empty
  payload gives what \<open>JSON.parse\<close> returns for the payload, whatever value that is; an
  exception of \<open>JSON.parse\<close> is not caught. A slot that holds the empty string gives
  the empty collection. The typed collections with which the first state starts are
  the parsed payloads themselves, and the parser never stops for lack of fuel.
\<close>

theorem load_on_start:
  "(st (ascii ''pocketGroups'') \<noteq> Some [] \<longrightarrow>
      initialGroups parse e st = spec_load parse e st (ascii ''pocketGroups'')) \<and>
   (st (ascii ''pocketNotes'') \<noteq> Some [] \<longrightarrow>
      initialNotes parse e st = spec_load parse e st (ascii ''pocketNotes'')) \<and>
   (st (ascii ''pocketGroups'') = None \<longrightarrow> initialGroups parse e st = Inr e) \<and>
   (st (ascii ''pocketNotes'') = None \<longrightarrow> initialNotes parse e st = Inr e) \<and>
   (st (ascii ''pocketGroups'') = Some p \<longrightarrow> p \<noteq> [] \<longrightarrow> initialGroups parse e st = parse p) \<and>
   (st (ascii ''pocketNotes'') = Some q \<longrightarrow> q \<noteq> [] \<longrightarrow> initialNotes parse e st = parse q) \<and>
   (st (ascii ''pocketGroups'') = Some [] \<longrightarrow> initialGroups parse e st = Inr e) \<and>
   (st (ascii ''pocketNotes'') = Some [] \<longrightarrow> initialNotes parse e st = Inr e) \<and>
   (loadGroups st = Inr gs \<longrightarrow>
      initialGroups JSON_parse (JArray []) st = Inr (JArray (map group_json gs))) \<and>
   (loadNotes st = Inr ns \<longrightarrow>
      initialNotes JSON_parse (JArray []) st = Inr (JArray (map note_json ns))) \<and>
   (mount st = Inr (s, st') \<longrightarrow>
      initialGroups JSON_parse (JArray []) st = Inr (JArray (map group_json (groups s))) \<and>
      initialNotes JSON_parse (JArray []) st = Inr (JArray (map note_json (notes s)))) \<and>
   initialGroups JSON_parse (JArray []) st \<noteq> Inl OutOfFuel \<and>
   initialNotes JSON_parse (JArray []) st \<noteq> Inl OutOfFuel"
proof -
  have raw: "initialGroups parse e st
               = (case st (ascii ''pocketGroups'') of
                    None \<Rightarrow> Inr e | Some t \<Rightarrow> if t = [] then Inr e else parse t)"
    "initialNotes parse e st
               = (case st (ascii ''pocketNotes'') of
                    None \<Rightarrow> Inr e | Some t \<Rightarrow> if t = [] then Inr e else parse t)"
    by (simp_all add: initialGroups_def initialNotes_def lazy_initialiser_def getItem_def
          truthy_def split: option.splits)
  have "mount st = Inr (s, st') \<longrightarrow>
      loadGroups st = Inr (groups s) \<and> loadNotes st = Inr (notes s)"
    by (auto simp: mount_def split: sum.splits)
  then have m: "mount st = Inr (s, st') \<longrightarrow>
      initialGroups JSON_parse (JArray []) st = Inr (JArray (map group_json (groups s))) \<and>
      initialNotes JSON_parse (JArray []) st = Inr (JArray (map note_json (notes s)))"
    by (auto dest: loadGroups_exact loadNotes_exact)
  show ?thesis
    using m initial_fuel [of st]
    by (auto simp: raw spec_load_def loadGroups_exact loadNotes_exact split: option.splits)
qed

text \<open>
  A storage whose group slot holds the text of one group and whose note slot is absent:
  the groups start as the array with that record, the notes start empty. A payload that
  is no array, here \<open>null\<close>, is loaded as the value it parses to.
\<close>

theorem load_on_start_witness:
  "initialGroups JSON_parse (JArray [])
     [ascii ''pocketGroups'' \<mapsto>
        ascii ''[{\"id\":\"1\",\"name\":\"Family\",\"color\":\"#B38BFA\",\"initials\":\"F\"}]'']
     = Inr (JArray [JObject [(ascii ''id'', JString (ascii ''1'')),
                             (ascii ''name'', JString (ascii ''Family'')),
                             (ascii ''color'', JString (ascii ''#B38BFA'')),
                             (ascii ''initials'', JString (ascii ''F''))]]) \<and>
   loadGroups
     [ascii ''pocketGroups'' \<mapsto>
        ascii ''[{\"id\":\"1\",\"name\":\"Family\",\"color\":\"#B38BFA\",\"initials\":\"F\"}]'']
     = Inr [\<lparr> group_id = ascii ''1'', group_name = ascii ''Family'',
               group_color = ascii ''#B38BFA'', group_initials = ascii ''F'' \<rparr>] \<and>
   initialNotes JSON_parse (JArray [])
     [ascii ''pocketGroups'' \<mapsto>
        ascii ''[{\"id\":\"1\",\"name\":\"Family\",\"color\":\"#B38BFA\",\"initials\":\"F\"}]'']
     = Inr (JArray []) \<and>
   initialGroups JSON_parse (JArray []) [ascii ''pocketGroups'' \<mapsto> ascii ''null'']
     = Inr JNull"
proof -
  let ?text = "ascii ''[{\"id\":\"1\",\"name\":\"Family\",\"color\":\"#B38BFA\",\"initials\":\"F\"}]''"
  let ?family = "\<lparr> group_id = ascii ''1'', group_name = ascii ''Family'',
                    group_color = ascii ''#B38BFA'', group_initials = ascii ''F'' \<rparr>"
  let ?st = "[ascii ''pocketGroups'' \<mapsto> ?text]"
  let ?st' = "[ascii ''pocketGroups'' \<mapsto> ascii ''null'']"
  have written: "JSON_stringify (JArray (map group_json [?family])) = ?text"
    by (simp add: group_json_def QuoteJSONString_def escape_unit_def is_high_surrogate_def
          is_low_surrogate_def ascii_def)
  have parse: "JSON_parse ?text = Inr (JArray [group_json ?family])"
    using JSON_parse_groups [of "[?family]"] unfolding written by simp
  have null: "JSON_parse (ascii ''null'') = Inr JNull"
    by (simp add: JSON_parse_def skip_ws_def is_json_ws_def literal_def ascii_def)
  have slots: "?st (ascii ''pocketGroups'') = Some ?text" "?text \<noteq> []"
    "?st (ascii ''pocketNotes'') = None"
    "?st' (ascii ''pocketGroups'') = Some (ascii ''null'')" "ascii ''null'' \<noteq> []"
    by (simp_all add: ascii_def)
  have typed: "loadGroups ?st = Inr [?family]"
    by (simp add: loadGroups_def slots parse json_collection_def json_group_inverse)
  note groups_slot = load_on_start [where st = ?st and p = ?text and parse = JSON_parse
      and e = "JArray []" and gs = "[?family]"]
  note null_slot = load_on_start [where st = ?st' and p = "ascii ''null''"
      and parse = JSON_parse and e = "JArray []"]
  from groups_slot slots(1,2)
  have g: "initialGroups JSON_parse (JArray []) ?st = JSON_parse ?text" by blast
  from groups_slot typed
  have t: "initialGroups JSON_parse (JArray []) ?st = Inr (JArray (map group_json [?family]))"
    by blast
  from groups_slot slots(3)
  have n: "initialNotes JSON_parse (JArray []) ?st = Inr (JArray [])" by blast
  from null_slot slots(4,5)
  have u: "initialGroups JSON_parse (JArray []) ?st' = JSON_parse (ascii ''null'')" by blast
  from g t n u typed null show ?thesis
    by (simp add: group_json_def)
qed

text \<open>
  C8 as stated fails on a slot that is present and holds the empty string: the payload
  is not deserialised (\<open>JSON.parse\<close> of it is a \<open>SyntaxError\<close>, which is what the load
  in the words of the specification gives); the guard \<open>saved ? ... : []\<close> takes it for
  an absent slot and the collection starts empty.
\<close>

theorem load_empty_payload:
  "initialGroups JSON_parse (JArray []) [ascii ''pocketGroups'' \<mapsto> []] = Inr (JArray []) \<and>
   spec_load JSON_parse (JArray []) [ascii ''pocketGroups'' \<mapsto> []] (ascii ''pocketGroups'')
     = Inl SyntaxError \<and>
   loadGroups [ascii ''pocketGroups'' \<mapsto> []] = Inr [] \<and>
   JSON_parse [] = Inl SyntaxError"
  by (simp add: initialGroups_def lazy_initialiser_def getItem_def truthy_def spec_load_def
        loadGroups_def JSON_parse_def skip_ws_def)

text \<open>
  C9. For content whose trimmed form is non-empty, the note that \<open>addNote\<close> appends
  holds the content as it was given, leading and trailing white space included; the
  text written under \<open>pocketNotes\<close> is the serialised collection with that note, and
  loading it gives the note back with the same content.
\<close>

theorem addNote_content_verbatim:
  assumes "trim content \<noteq> []"
  shows "let n = \<lparr> note_id = toString now, note_groupId = groupId, note_content = content,
                   note_date = formatDate l dateObj, note_time = formatTime l dateObj \<rparr>;
             r = addNote_rendered l dateObj now groupId content (s, st)
         in fst r = Appended n \<and>
            notes (fst (snd r)) = notes s @ [n] \<and>
            note_content (last (notes (fst (snd r)))) = content \<and>
            snd (snd r) (ascii ''pocketNotes'')
              = Some (JSON_stringify (JArray (map note_json (notes s @ [n])))) \<and>
            loadNotes (snd (snd r)) = Inr (notes s @ [n])"
  by (simp add: addNote_rendered_result [OF assms] Let_def loadNotes_saveNotes)
     (simp add: saveNotes_def)

text \<open>
  The content \<open>" hi "\<close> is stored and persisted with its spaces, while its trimmed
  form is \<open>"hi"\<close>.
\<close>

theorem addNote_content_verbatim_witness:
  "note_content (last (notes (fst (snd (addNote_rendered epoch_utc 0 9 (Some (ascii ''1''))
      (ascii '' hi '') (empty_state, Map.empty)))))) = ascii '' hi '' \<and>
   trim (ascii '' hi '') = ascii ''hi'' \<and>
   map_sum id (map note_content) (loadNotes (snd (snd (addNote_rendered epoch_utc 0 9
      (Some (ascii ''1'')) (ascii '' hi '') (empty_state, Map.empty))))) = Inr [ascii '' hi '']"
proof -
  have a: "trim (ascii '' hi '') = ascii ''hi''" by (simp add: string_eval)
  then have b: "trim (ascii '' hi '') \<noteq> []" by (simp add: ascii_def)
  from addNote_content_verbatim [OF b, of 9 "Some (ascii ''1'')" epoch_utc 0 empty_state Map.empty] a
  show ?thesis by (simp add: Let_def empty_state_def)
qed

text \<open>
  C10. With nothing selected, \<open>addNote\<close> on content that is not blank neither returns
  at a guard nor raises an alert: it appends a note whose \<open>groupId\<close> is \<open>null\<close> to the
  note collection and leaves the groups as they are; the collection with that note is
  written to \<open>pocketNotes\<close> and loads again; the note has the id of no group and is in
  the list of notes of no group id.
\<close>

theorem addNote_without_selection:
  assumes "trim content \<noteq> []"
  shows "let n = \<lparr> note_id = toString now, note_groupId = None, note_content = content,
                   note_date = formatDate l dateObj, note_time = formatTime l dateObj \<rparr>;
             r = addNote_rendered l dateObj now None content (s, st)
         in fst r = Appended n \<and>
            notes (fst (snd r)) = notes s @ [n] \<and>
            groups (fst (snd r)) = groups s \<and>
            (\<forall>g\<in>set (groups (fst (snd r))). Some (group_id g) \<noteq> note_groupId n) \<and>
            listNotesFor (Some gid) (fst (snd r)) = listNotesFor (Some gid) s \<and>
            loadNotes (snd (snd r)) = Inr (notes s @ [n])"
  by (simp add: addNote_rendered_result [OF assms] Let_def loadNotes_saveNotes
        listNotesFor_def currentNotes_def)

text \<open>
  After group \<open>Family\<close> was created with id \<open>1\<close>, the note \<open>Dinner at 7\<close> added with
  nothing selected has \<open>groupId\<close> \<open>null\<close> and is not listed for the group.
\<close>

theorem addNote_without_selection_witness:
  "(\<exists>n. fst (addNote_rendered epoch_utc 0 9 None (ascii ''Dinner at 7'')
            (snd (createGroup latin1 1 (ascii ''Family'') (GROUP_COLORS ! 0) empty_state),
             Map.empty)) = Appended n \<and> note_groupId n = None) \<and>
   listNotesFor (Some (ascii ''1'')) (fst (snd (addNote_rendered epoch_utc 0 9 None
      (ascii ''Dinner at 7'')
      (snd (createGroup latin1 1 (ascii ''Family'') (GROUP_COLORS ! 0) empty_state),
       Map.empty)))) = []"
proof -
  let ?s1 = "snd (createGroup latin1 1 (ascii ''Family'') (GROUP_COLORS ! 0) empty_state)"
  have b: "trim (ascii ''Dinner at 7'') \<noteq> []" by (simp add: string_eval)
  have c: "notes ?s1 = []"
    by (simp add: createGroup_def handleCreateGroup_def empty_state_def Let_def)
  from addNote_without_selection [OF b, of 9 epoch_utc 0 ?s1 Map.empty "ascii ''1''"]
  show ?thesis by (simp add: Let_def listNotesFor_def currentNotes_def c)
qed

end
